theory Spec2Isabelle
  imports Complex_Main "HOL-Library.Log_Nat"
begin

section \<open>Strings\<close>

text \<open>
  A Python \<open>str\<close> is a sequence of Unicode code points, so a character is modelled by
  its code point and a string by the list of its code points. \<open>lit\<close> embeds an ASCII
  literal. The pattern of the second substitution of \<open>remove_bracket_refs\<close> is, in the
  UTF-8 source file, the three code points U+00E2, U+20AC, U+00A0 (a dagger decoded with
  the wrong code page).
\<close>

type_synonym pychar = nat
type_synonym pystring = "pychar list"

definition lit :: "string \<Rightarrow> pystring" where
  "lit s = map of_char s"

definition dagger :: pystring where
  "dagger = [226, 8364, 160]"

text \<open>\<open>str.isspace\<close> for one code point; \<open>str.strip()\<close> and \<open>\s\<close> both use it.\<close>

definition isspace :: "pychar \<Rightarrow> bool" where
  "isspace c \<longleftrightarrow>
     (9 \<le> c \<and> c \<le> 13) \<or> (28 \<le> c \<and> c \<le> 32) \<or> c = 133 \<or> c = 160 \<or> c = 5760 \<or>
     (8192 \<le> c \<and> c \<le> 8202) \<or> c = 8232 \<or> c = 8233 \<or> c = 8239 \<or> c = 8287 \<or> c = 12288"

definition strip :: "pystring \<Rightarrow> pystring" where
  "strip s = rev (dropWhile isspace (rev (dropWhile isspace s)))"

section \<open>Floats\<close>

text \<open>
  A Python \<open>float\<close> is an IEEE 754 binary64 value: a rational or an infinity (signed
  zeros and NaN do not arise from unsigned numerals and a positive divisor, and are not
  represented). \<open>round_double\<close> rounds a rational to the nearest double, ties to even,
  with gradual underflow and overflow to infinity; \<open>float(s)\<close> and \<open>/\<close> are correctly
  rounded, so both are \<open>round_double\<close> of the exact value.
\<close>

datatype pyfloat = Finite rat | PosInf | NegInf

definition pow2 :: "int \<Rightarrow> rat" where
  "pow2 e = (if 0 \<le> e then 2 ^ nat e else 1 / 2 ^ nat (- e))"

definition round_half_even :: "rat \<Rightarrow> int" where
  "round_half_even q =
     (let f = \<lfloor>q\<rfloor>; r = q - of_int f
      in if r < 1 / 2 then f else if 1 / 2 < r then f + 1 else if even f then f else f + 1)"

text \<open>The exponent of the binade of a positive rational: \<open>\<lfloor>log\<^sub>2 q\<rfloor>\<close>.\<close>

definition binade :: "rat \<Rightarrow> int" where
  "binade q = (if 1 \<le> q then bitlen \<lfloor>q\<rfloor> - 1 else - bitlen (\<lceil>1 / q\<rceil> - 1))"

definition round_pos :: "rat \<Rightarrow> rat option" where
  "round_pos q =
     (let e = max (binade q) (- 1022);
          u = pow2 (e - 52);
          r = of_int (round_half_even (q / u)) * u
      in if 1023 \<le> e then (if pow2 1024 \<le> r then None else Some r) else Some r)"

definition round_double :: "rat \<Rightarrow> pyfloat" where
  "round_double q =
     (if q = 0 then Finite 0
      else if 0 < q then (case round_pos q of None \<Rightarrow> PosInf | Some r \<Rightarrow> Finite r)
      else (case round_pos (- q) of None \<Rightarrow> NegInf | Some r \<Rightarrow> Finite (- r)))"

text \<open>\<open>x / 1_000_000.0\<close> and \<open>x > 100\<close> on floats.\<close>

definition div_million :: "pyfloat \<Rightarrow> pyfloat" where
  "div_million x = (case x of Finite r \<Rightarrow> round_double (r / 1000000) | PosInf \<Rightarrow> PosInf | NegInf \<Rightarrow> NegInf)"

definition gt_100 :: "pyfloat \<Rightarrow> bool" where
  "gt_100 x = (case x of Finite r \<Rightarrow> 100 < r | PosInf \<Rightarrow> True | NegInf \<Rightarrow> False)"

definition nonneg :: "pyfloat \<Rightarrow> bool" where
  "nonneg x = (case x of Finite r \<Rightarrow> 0 \<le> r | PosInf \<Rightarrow> True | NegInf \<Rightarrow> False)"

section \<open>Cells and the Python runtime\<close>

text \<open>
  A cell of a table, as \<open>pd.isna\<close> and \<open>isinstance(v, str)\<close> tell them apart: a missing
  value (\<open>None\<close>, \<open>NaN\<close>), a string, an integer or a float.
\<close>

datatype cell = Missing | Str pystring | Num int | Flt pyfloat

text \<open>
  \<open>str.lower()\<close>, the class \<open>\d\<close>, \<open>int()\<close> and \<open>str()\<close> of a float consult tables and
  algorithms of the Python runtime that are not part of the repository. The ASCII part of
  the Unicode database is written out; the rest is a parameter of the model: how a string
  with a non-ASCII character is lower-cased, the decimal value of a non-ASCII code point
  of category Nd, and the text \<open>str()\<close> prints for a float. \<open>ascii_runtime\<close> is the
  instance without entries beyond ASCII; results on ASCII strings do not depend on the
  instance.
\<close>

record runtime =
  lower_nonascii :: "pystring \<Rightarrow> pystring"
  decimal_nonascii :: "pychar \<Rightarrow> nat option"
  float_repr :: "pyfloat \<Rightarrow> pystring"

definition ascii_runtime :: runtime where
  "ascii_runtime =
     \<lparr>lower_nonascii = (\<lambda>s. s), decimal_nonascii = (\<lambda>c. None), float_repr = (\<lambda>x. [])\<rparr>"

definition py_lower :: "runtime \<Rightarrow> pystring \<Rightarrow> pystring" where
  "py_lower R s =
     (if list_all (\<lambda>c. c < 128) s
      then map (\<lambda>c. if 65 \<le> c \<and> c \<le> 90 then c + 32 else c) s
      else lower_nonascii R s)"

text \<open>The class \<open>[0-9]\<close>.\<close>

definition isdigit09 :: "pychar \<Rightarrow> bool" where
  "isdigit09 c \<longleftrightarrow> 48 \<le> c \<and> c \<le> 57"

text \<open>The decimal value of a code point that \<open>\d\<close> matches.\<close>

definition decimal :: "runtime \<Rightarrow> pychar \<Rightarrow> nat option" where
  "decimal R c =
     (if c < 128 then (if isdigit09 c then Some (c - 48) else None)
      else decimal_nonascii R c)"

definition isdecimal :: "runtime \<Rightarrow> pychar \<Rightarrow> bool" where
  "isdecimal R c \<longleftrightarrow> decimal R c \<noteq> None"

datatype error = ValueError | KeyError pystring | OverflowError | BrokerError

text \<open>\<open>str(v)\<close>: the decimal numeral of an integer, \<open>nan\<close> for a missing value.\<close>

fun digits_of :: "nat \<Rightarrow> pystring" where
  "digits_of n = (if n < 10 then [48 + n] else digits_of (n div 10) @ [48 + n mod 10])"

declare digits_of.simps [simp del]

definition py_str :: "runtime \<Rightarrow> cell \<Rightarrow> pystring" where
  "py_str R v = (case v of
      Str s \<Rightarrow> s
    | Num i \<Rightarrow> (if i < 0 then 45 # digits_of (nat (- i)) else digits_of (nat i))
    | Flt x \<Rightarrow> float_repr R x
    | Missing \<Rightarrow> lit ''nan'')"

text \<open>
  \<open>int(s)\<close> on a string of decimal digits. On any other string the model raises; the
  pipeline calls \<open>int\<close> only on what \<open>\d{4}\<close> matched.
\<close>

fun int_digits :: "runtime \<Rightarrow> nat \<Rightarrow> pystring \<Rightarrow> error + nat" where
  "int_digits R acc [] = Inr acc"
| "int_digits R acc (c # cs) =
     (case decimal R c of
        None \<Rightarrow> Inl ValueError
      | Some d \<Rightarrow> int_digits R (10 * acc + d) cs)"

definition py_int :: "runtime \<Rightarrow> pystring \<Rightarrow> error + int" where
  "py_int R s =
     (if s = [] then Inl ValueError
      else (case int_digits R 0 s of Inl e \<Rightarrow> Inl e | Inr n \<Rightarrow> Inr (int n)))"

text \<open>
  What the group \<open>([0-9]+(?:\.[0-9]+)?)\<close> consumes at the start of a string: the longest
  run of digits and, if a dot and a digit follow, the dot and the longest run of digits
  after it. It is empty if the string does not start with a digit. A shorter choice never
  lets the rest of any of the three patterns match: what would follow is a digit, or a
  dot where \<open>\s\<close>, \<open>m\<close> or the end is required.
\<close>

definition number_prefix :: "pystring \<Rightarrow> pystring" where
  "number_prefix s =
     (let d = takeWhile isdigit09 s; r = dropWhile isdigit09 s
      in if d = [] then []
         else (case r of
                 c # c' # _ \<Rightarrow>
                   if c = 46 \<and> isdigit09 c' then d @ c # takeWhile isdigit09 (tl r) else d
               | _ \<Rightarrow> d))"

definition is_number :: "pystring \<Rightarrow> bool" where
  "is_number s \<longleftrightarrow> s \<noteq> [] \<and> number_prefix s = s"

fun digits_value :: "nat \<Rightarrow> pystring \<Rightarrow> nat" where
  "digits_value acc [] = acc"
| "digits_value acc (c # cs) = digits_value (10 * acc + (c - 48)) cs"

text \<open>The exact value of a numeral \<open>ddd\<close> or \<open>ddd.ddd\<close>.\<close>

definition decimal_value :: "pystring \<Rightarrow> rat" where
  "decimal_value s =
     (let d = takeWhile isdigit09 s; f = drop (length d + 1) s
      in of_nat (digits_value 0 (d @ f)) / 10 ^ length f)"

text \<open>
  \<open>float(s)\<close> on such a numeral. On any other string the model raises; the pipeline calls
  \<open>float\<close> only on what the group matched.
\<close>

definition py_float :: "pystring \<Rightarrow> error + pyfloat" where
  "py_float s = (if is_number s then Inr (round_double (decimal_value s)) else Inl ValueError)"

section \<open>Reference-marker stripping\<close>

text \<open>
  \<open>re.sub(r'\[.*?\]', '', s)\<close>. At an opening bracket the lazy \<open>.*?\<close> stops at the first
  closing bracket, and \<open>.\<close> does not match a newline (code point 10): \<open>bracket_end\<close>
  returns what follows the closing bracket, if the span matches. The scan goes left to
  right and resumes after each removed span.
\<close>

fun bracket_end :: "pystring \<Rightarrow> pystring option" where
  "bracket_end [] = None"
| "bracket_end (c # cs) =
     (if c = 93 then Some cs else if c = 10 then None else bracket_end cs)"

function sub_brackets :: "pystring \<Rightarrow> pystring" where
  "sub_brackets [] = []"
| "sub_brackets (c # cs) =
     (if c = 91
      then (case bracket_end cs of
              Some r \<Rightarrow> sub_brackets r
            | None \<Rightarrow> c # sub_brackets cs)
      else c # sub_brackets cs)"
  by pat_completeness auto
termination
proof (relation "measure length")
  show "wf (measure length)" by simp
next
  fix c :: pychar and cs r :: pystring
  assume "bracket_end cs = Some r"
  then have "length r < length cs"
    by (induction cs) (auto split: if_splits)
  then show "(r, c # cs) \<in> measure length" by simp
next
  fix c :: pychar and cs :: pystring
  show "(cs, c # cs) \<in> measure length" by simp
next
  fix c :: pychar and cs :: pystring
  show "(cs, c # cs) \<in> measure length" by simp
qed

text \<open>A string is free of bracket spans when no opening bracket can be closed.\<close>

fun no_span :: "pystring \<Rightarrow> bool" where
  "no_span [] = True"
| "no_span (c # cs) = ((c = 91 \<longrightarrow> bracket_end cs = None) \<and> no_span cs)"

text \<open>\<open>re.sub(dagger, '', s)\<close>: a literal pattern, removed left to right.\<close>

fun sub_dagger :: "pystring \<Rightarrow> pystring" where
  "sub_dagger [] = []"
| "sub_dagger (c # cs) =
     (if take 3 (c # cs) = dagger then sub_dagger (drop 2 cs) else c # sub_dagger cs)"

fun has_dagger :: "pystring \<Rightarrow> bool" where
  "has_dagger [] = False"
| "has_dagger (c # cs) = (take 3 (c # cs) = dagger \<or> has_dagger cs)"

definition strip_refs :: "pystring \<Rightarrow> pystring" where
  "strip_refs s = strip (sub_dagger (sub_brackets s))"

definition remove_bracket_refs :: "runtime \<Rightarrow> cell \<Rightarrow> cell" where
  "remove_bracket_refs R s =
     (if s = Missing then s else Str (strip_refs (py_str R s)))"

section \<open>Parsing viewers and years\<close>

text \<open>
  \<open>re.search(p, s)\<close> tries the pattern at every position from the left, the end of the
  string included, and returns the first match. \<open>m\<close> is the pattern matched at the start
  of a string, returning group 1.
\<close>

fun re_search :: "(pystring \<Rightarrow> 'a option) \<Rightarrow> pystring \<Rightarrow> 'a option" where
  "re_search m [] = m []"
| "re_search m (c # cs) =
     (case m (c # cs) of Some g \<Rightarrow> Some g | None \<Rightarrow> re_search m cs)"

text \<open>\<open>([0-9]+(?:\.[0-9]+)?)\s*million\<close> at the start of a string.\<close>

definition match_million :: "pystring \<Rightarrow> pystring option" where
  "match_million s =
     (let g = number_prefix s
      in if g \<noteq> [] \<and> take 7 (dropWhile isspace (drop (length g) s)) = lit ''million''
         then Some g else None)"

text \<open>\<open>([0-9]{4,})\<close> at the start of a string: the whole run of digits, if it has four.\<close>

definition match_digits4 :: "pystring \<Rightarrow> pystring option" where
  "match_digits4 s =
     (let d = takeWhile isdigit09 s in if 4 \<le> length d then Some d else None)"

text \<open>
  \<open>^([0-9]+(?:\.[0-9]+)?)$\<close>: \<open>^\<close> is the start of the string, so the search can only
  match at position 0; \<open>$\<close> is the end of the string or the position before a final
  newline.
\<close>

definition match_whole :: "pystring \<Rightarrow> pystring option" where
  "match_whole s =
     (let g = number_prefix s; r = drop (length g) s
      in if g \<noteq> [] \<and> (r = [] \<or> r = [10]) then Some g else None)"

text \<open>
  The string the three patterns are searched in: the three assignments to \<open>s\<close> at the
  start of \<open>parse_viewers\<close>.
\<close>

definition viewers_text :: "runtime \<Rightarrow> cell \<Rightarrow> pystring" where
  "viewers_text R val =
     (let s = py_lower R (py_str R val);
          s = py_str R (remove_bracket_refs R (Str s));
          s = strip (filter (\<lambda>c. c \<noteq> 44) s)
      in s)"

definition parse_viewers :: "runtime \<Rightarrow> cell \<Rightarrow> pyfloat option" where
  "parse_viewers R val =
     (if val = Missing then None
      else
        let s = viewers_text R val
        in case re_search match_million s of
             Some g \<Rightarrow> (case py_float g of Inr v \<Rightarrow> Some v | Inl e \<Rightarrow> None)
           | None \<Rightarrow>
        (case re_search match_digits4 s of
             Some g \<Rightarrow> (case py_float g of Inr n \<Rightarrow> Some (div_million n) | Inl e \<Rightarrow> None)
           | None \<Rightarrow>
        (case match_whole s of
             Some g \<Rightarrow>
               (case py_float g of
                  Inr v \<Rightarrow> Some (if gt_100 v then div_million v else v)
                | Inl e \<Rightarrow> None)
           | None \<Rightarrow> None)))"

text \<open>\<open>(\d{4})\<close> at the start of a string: four decimal digits.\<close>

definition match_year :: "runtime \<Rightarrow> pystring \<Rightarrow> pystring option" where
  "match_year R s =
     (if 4 \<le> length s \<and> list_all (isdecimal R) (take 4 s) then Some (take 4 s) else None)"

definition extract_year :: "runtime \<Rightarrow> cell \<Rightarrow> error + int option" where
  "extract_year R date_str =
     (if date_str = Missing then Inr None
      else
        let s = py_str R (remove_bracket_refs R (Str (py_str R date_str)))
        in case re_search (match_year R) s of
             Some g \<Rightarrow> (case py_int R g of Inl e \<Rightarrow> Inl e | Inr y \<Rightarrow> Inr (Some y))
           | None \<Rightarrow> Inr None)"

section \<open>Tables\<close>

text \<open>
  A row is the dictionary \<open>row.to_dict()\<close> gives: column labels with their cells, in
  column order. A \<open>DataFrame\<close> is its column labels and its rows; labels are strings
  (\<open>unify_tables\<close> applies \<open>str\<close> to them first). \<open>dict_set\<close> is \<open>d[k] = v\<close>, \<open>to_dict\<close>
  builds a dictionary from pairs: a later pair with the same key replaces the value and
  keeps the position. \<open>item\<close> is \<open>d.get(k)\<close>.
\<close>

type_synonym row = "(pystring \<times> cell) list"

record frame =
  columns :: "pystring list"
  rows :: "row list"

fun dict_set :: "'k \<Rightarrow> 'v \<Rightarrow> ('k \<times> 'v) list \<Rightarrow> ('k \<times> 'v) list" where
  "dict_set k v [] = [(k, v)]"
| "dict_set k v (kv # d) = (if fst kv = k then (k, v) # d else kv # dict_set k v d)"

definition to_dict :: "('k \<times> 'v) list \<Rightarrow> ('k \<times> 'v) list" where
  "to_dict kvs = foldl (\<lambda>d kv. dict_set (fst kv) (snd kv) d) [] kvs"

definition item :: "row \<Rightarrow> pystring \<Rightarrow> cell" where
  "item r c = (case map_of r c of Some v \<Rightarrow> v | None \<Rightarrow> Missing)"

definition add_column :: "pystring \<Rightarrow> pystring list \<Rightarrow> pystring list" where
  "add_column c cs = (if c \<in> set cs then cs else cs @ [c])"

text \<open>\<open>df[c]\<close> and \<open>df[c] = values\<close>.\<close>

definition get_col :: "frame \<Rightarrow> pystring \<Rightarrow> error + cell list" where
  "get_col df c =
     (if c \<in> set (columns df) then Inr (map (\<lambda>r. item r c) (rows df)) else Inl (KeyError c))"

definition set_col :: "pystring \<Rightarrow> cell list \<Rightarrow> frame \<Rightarrow> frame" where
  "set_col c vs df =
     \<lparr>columns = add_column c (columns df),
      rows = map (\<lambda>rv. dict_set c (snd rv) (fst rv)) (zip (rows df) vs)\<rparr>"

text \<open>\<open>pd.DataFrame(dicts)\<close>: the columns are the keys in order of first appearance.\<close>

definition DataFrame :: "row list \<Rightarrow> frame" where
  "DataFrame rs =
     \<lparr>columns = foldl (\<lambda>cs k. add_column k cs) [] (concat (map (map fst) rs)), rows = rs\<rparr>"

subsection \<open>Extraction\<close>

text \<open>
  Parsing the markup is outside the model. \<open>extract_tables\<close> takes, for each table of the
  page in order, the frame \<open>pd.read_html\<close> returned, or \<open>None\<close> where it raised; it tags
  each parsed table with its position and skips the others.
\<close>

definition source_index :: pystring where
  "source_index = lit ''_source_table_index''"

fun extract_loop :: "nat \<Rightarrow> frame option list \<Rightarrow> frame list" where
  "extract_loop i [] = []"
| "extract_loop i (None # ts) = extract_loop (Suc i) ts"
| "extract_loop i (Some df # ts) =
     set_col source_index (replicate (length (rows df)) (Num (int i))) df
       # extract_loop (Suc i) ts"

definition extract_tables :: "frame option list \<Rightarrow> frame list" where
  "extract_tables parsed = extract_loop 0 parsed"

subsection \<open>Unification\<close>

text \<open>
  \<open>keys\<close> maps each lower-cased label to the label; of two labels with the same lower
  case the later one stays. \<open>py_or\<close> is \<open>a or b\<close> on optional strings, \<open>row_get\<close> is
  \<open>rowdict.get(k, None)\<close> where \<open>k\<close> may be \<open>None\<close>, \<open>first_text\<close> the loop that looks for
  the first string cell that is not blank.
\<close>

definition lower_keys :: "runtime \<Rightarrow> row \<Rightarrow> (pystring \<times> pystring) list" where
  "lower_keys R rowdict = to_dict (map (\<lambda>kv. (py_lower R (fst kv), fst kv)) rowdict)"

definition py_or :: "pystring option \<Rightarrow> pystring option \<Rightarrow> pystring option" where
  "py_or a b = (case a of Some k \<Rightarrow> if k \<noteq> [] then Some k else b | None \<Rightarrow> b)"

definition row_get :: "row \<Rightarrow> pystring option \<Rightarrow> cell" where
  "row_get rowdict key = (case key of None \<Rightarrow> Missing | Some k \<Rightarrow> item rowdict k)"

definition is_text :: "cell \<Rightarrow> bool" where
  "is_text v = (case v of Str s \<Rightarrow> strip s \<noteq> [] | _ \<Rightarrow> False)"

definition first_text :: "row \<Rightarrow> cell option" where
  "first_text rowdict = find is_text (map snd rowdict)"

definition unify_row :: "runtime \<Rightarrow> row \<Rightarrow> row" where
  "unify_row R r =
     (let rowdict = to_dict r;
          keys = lower_keys R rowdict;
          get = (\<lambda>name. map_of keys (lit name));
          title = row_get rowdict
            (py_or (py_or (py_or (py_or (py_or (get ''show'') (get ''programme''))
               (get ''program'')) (get ''broadcast'')) (get ''episode'')) (get ''title''));
          date = row_get rowdict (get ''date'');
          viewers = row_get rowdict
            (py_or (py_or (py_or (get ''viewers'') (get ''number of viewers''))
               (get ''number of viewers (millions)'')) (get ''number of viewers (millions)''));
          network = row_get rowdict (py_or (get ''network'') (get ''channel''));
          title = (if title = Missing
                   then (case first_text rowdict of Some v \<Rightarrow> v | None \<Rightarrow> title)
                   else title)
      in [(lit ''title'', title), (lit ''date'', date), (lit ''viewers'', viewers),
          (lit ''network'', network)])"

text \<open>The two loops, appending to \<open>normalized_rows\<close>.\<close>

fun unify_rows :: "runtime \<Rightarrow> row list \<Rightarrow> row list \<Rightarrow> row list" where
  "unify_rows R [] normalized_rows = normalized_rows"
| "unify_rows R (r # rs) normalized_rows =
     unify_rows R rs (normalized_rows @ [unify_row R r])"

fun unify_loop :: "runtime \<Rightarrow> frame list \<Rightarrow> row list \<Rightarrow> row list" where
  "unify_loop R [] normalized_rows = normalized_rows"
| "unify_loop R (df # dfs) normalized_rows =
     unify_loop R dfs (unify_rows R (rows df) normalized_rows)"

definition unify_tables :: "runtime \<Rightarrow> frame list \<Rightarrow> error + frame" where
  "unify_tables R dfs =
     (if dfs = [] then Inl ValueError else Inr (DataFrame (unify_loop R dfs [])))"

subsection \<open>Cleaning\<close>

text \<open>\<open>str.replace(r'\s+', ' ', regex=True)\<close>: every run of whitespace becomes one space.\<close>

fun collapse_ws :: "pystring \<Rightarrow> pystring" where
  "collapse_ws [] = []"
| "collapse_ws [c] = (if isspace c then [32] else [c])"
| "collapse_ws (c # d # cs) =
     (if isspace c
      then (if isspace d then collapse_ws (d # cs) else 32 # collapse_ws (d # cs))
      else c # collapse_ws (d # cs))"

text \<open>\<open>fillna('').astype(str).str.strip()\<close>, then the replacement.\<close>

definition normalize_title :: "runtime \<Rightarrow> cell \<Rightarrow> cell" where
  "normalize_title R v =
     Str (collapse_ws (strip (py_str R (if v = Missing then Str [] else v))))"

text \<open>One round of the loop over the four columns.\<close>

definition apply_refs :: "runtime \<Rightarrow> frame \<Rightarrow> pystring \<Rightarrow> frame" where
  "apply_refs R df c =
     (if c \<in> set (columns df)
      then set_col c (map (\<lambda>r. remove_bracket_refs R (item r c)) (rows df)) df
      else df)"

text \<open>\<open>Series.apply\<close> with a function that may raise.\<close>

fun map_err :: "('a \<Rightarrow> error + 'b) \<Rightarrow> 'a list \<Rightarrow> error + 'b list" where
  "map_err f [] = Inr []"
| "map_err f (x # xs) =
     (case f x of
        Inl e \<Rightarrow> Inl e
      | Inr y \<Rightarrow> (case map_err f xs of Inl e \<Rightarrow> Inl e | Inr ys \<Rightarrow> Inr (y # ys)))"

definition float_cell :: "pyfloat option \<Rightarrow> cell" where
  "float_cell x = (case x of None \<Rightarrow> Missing | Some v \<Rightarrow> Flt v)"

definition int_cell :: "int option \<Rightarrow> cell" where
  "int_cell x = (case x of None \<Rightarrow> Missing | Some v \<Rightarrow> Num v)"

definition clean_df :: "runtime \<Rightarrow> frame \<Rightarrow> error + frame" where
  "clean_df R df0 =
     (let df1 = foldl (apply_refs R) df0
                  [lit ''title'', lit ''date'', lit ''viewers'', lit ''network''];
          df2 = (if lit ''title'' \<in> set (columns df1)
                 then let t = map (\<lambda>r. normalize_title R (item r (lit ''title''))) (rows df1)
                      in set_col (lit ''title_clean'') (map (\<lambda>v. Str (py_lower R (py_str R v))) t)
                           (set_col (lit ''title'') t df1)
                 else df1)
      in case get_col df2 (lit ''viewers'') of
           Inl e \<Rightarrow> Inl e
         | Inr vs \<Rightarrow>
      let df3 = set_col (lit ''viewers_millions'')
                  (map (\<lambda>v. float_cell (parse_viewers R v)) vs) df2
      in case get_col df3 (lit ''date'') of
           Inl e \<Rightarrow> Inl e
         | Inr ds \<Rightarrow>
      (case map_err (extract_year R) ds of
           Inl e \<Rightarrow> Inl e
         | Inr ys \<Rightarrow>
      let df4 = set_col (lit ''year'') (map int_cell ys) df3
      in case get_col df4 (lit ''title'') of
           Inl e \<Rightarrow> Inl e
         | Inr ts \<Rightarrow>
      let df5 = df4\<lparr>rows := filter (\<lambda>r. item r (lit ''title'') \<noteq> Str []
                                        \<and> item r (lit ''title'') \<noteq> Missing) (rows df4)\<rparr>
      in case get_col df5 (lit ''viewers_millions'') of
           Inl e \<Rightarrow> Inl e
         | Inr ms \<Rightarrow>
             Inr (df5\<lparr>rows := filter (\<lambda>r. item r (lit ''viewers_millions'') \<noteq> Missing)
                                (rows df5)\<rparr>)))"

subsection \<open>The sink file\<close>

text \<open>
  \<open>df.to_csv(path, index=index)\<close>: the header and one line of cells per row; with
  \<open>index\<close> each line starts with the row number under an empty label. How a cell is
  printed is not modelled.
\<close>

record csv_file =
  csv_header :: "pystring list"
  csv_lines :: "cell list list"

definition to_csv :: "bool \<Rightarrow> frame \<Rightarrow> csv_file" where
  "to_csv index df =
     \<lparr>csv_header = (if index then [] # columns df else columns df),
      csv_lines = map (\<lambda>ir. (if index then [Num (int (fst ir))] else [])
                              @ map (item (snd ir)) (columns df))
                    (enumerate 0 (rows df))\<rparr>"

text \<open>\<open>main\<close> up to the sink file, from what the parser made of the page.\<close>

definition main_sink :: "runtime \<Rightarrow> frame option list \<Rightarrow> error + csv_file" where
  "main_sink R parsed =
     (case unify_tables R (extract_tables parsed) of
        Inl e \<Rightarrow> Inl e
      | Inr combined \<Rightarrow>
          (case clean_df R combined of
             Inl e \<Rightarrow> Inl e
           | Inr cleaned \<Rightarrow> Inr (to_csv False cleaned)))"

subsection \<open>The publisher\<close>

text \<open>
  The broker is the environment: whether the producer connects, whether \<open>send\<close> raises
  for a message (given the messages handed over before), whether \<open>flush\<close> and \<open>close\<close>
  raise. The producer records every message handed to \<open>send\<close>. Topic provisioning
  catches all its exceptions and only prints, so it has no part in the result.
\<close>

record broker =
  connects :: bool
  send_raises :: "row list \<Rightarrow> row \<Rightarrow> bool"
  flush_raises :: bool
  close_raises :: bool

record producer =
  attempted :: "row list"
  flushed :: bool
  closed :: bool

definition send :: "broker \<Rightarrow> producer \<Rightarrow> row \<Rightarrow> producer \<times> bool" where
  "send B p msg = (p\<lparr>attempted := attempted p @ [msg]\<rparr>, \<not> send_raises B (attempted p) msg)"

text \<open>\<open>row[c]\<close>, \<open>int(v)\<close> and \<open>float(v)\<close> on a cell.\<close>

definition row_item :: "row \<Rightarrow> pystring \<Rightarrow> error + cell" where
  "row_item r c = (case map_of r c of Some v \<Rightarrow> Inr v | None \<Rightarrow> Inl (KeyError c))"

definition to_int :: "runtime \<Rightarrow> cell \<Rightarrow> error + cell" where
  "to_int R v = (case v of
      Num n \<Rightarrow> Inr (Num n)
    | Flt x \<Rightarrow> (case x of
                  Finite q \<Rightarrow> Inr (Num (if 0 \<le> q then \<lfloor>q\<rfloor> else \<lceil>q\<rceil>))
                | PosInf \<Rightarrow> Inl OverflowError
                | NegInf \<Rightarrow> Inl OverflowError)
    | Str s \<Rightarrow> (case py_int R s of Inl e \<Rightarrow> Inl e | Inr n \<Rightarrow> Inr (Num n))
    | Missing \<Rightarrow> Inl ValueError)"

definition to_float :: "cell \<Rightarrow> error + cell" where
  "to_float v = (case v of
      Flt x \<Rightarrow> Inr (Flt x)
    | Num n \<Rightarrow> Inr (Flt (round_double (of_int n)))
    | Str s \<Rightarrow> (case py_float s of Inl e \<Rightarrow> Inl e | Inr x \<Rightarrow> Inr (Flt x))
    | Missing \<Rightarrow> Inr Missing)"

definition build_msg :: "runtime \<Rightarrow> row \<Rightarrow> error + row" where
  "build_msg R r =
     (case row_item r (lit ''year'') of
        Inl e \<Rightarrow> Inl e
      | Inr y \<Rightarrow>
     (case (if y \<noteq> Missing then to_int R y else Inr Missing) of
        Inl e \<Rightarrow> Inl e
      | Inr year \<Rightarrow>
     (case row_item r (lit ''viewers_millions'') of
        Inl e \<Rightarrow> Inl e
      | Inr m \<Rightarrow>
     (case (if m \<noteq> Missing then to_float m else Inr Missing) of
        Inl e \<Rightarrow> Inl e
      | Inr viewers_millions \<Rightarrow>
          Inr [(lit ''title'', item r (lit ''title'')),
               (lit ''title_clean'', item r (lit ''title_clean'')),
               (lit ''date'', item r (lit ''date'')),
               (lit ''year'', year),
               (lit ''viewers_millions'', viewers_millions),
               (lit ''network'', item r (lit ''network''))]))))"

text \<open>
  The loop over the rows. Building the message is outside the \<open>try\<close>, so an error there
  leaves the loop; an error of \<open>send\<close> is caught and the loop goes on.
\<close>

fun send_loop ::
  "runtime \<Rightarrow> broker \<Rightarrow> row list \<Rightarrow> producer \<Rightarrow> nat \<Rightarrow> producer \<times> (error + nat)" where
  "send_loop R B [] p sent = (p, Inr sent)"
| "send_loop R B (r # rs) p sent =
     (case build_msg R r of
        Inl e \<Rightarrow> (p, Inl e)
      | Inr msg \<Rightarrow>
          send_loop R B rs (fst (send B p msg))
            (if snd (send B p msg) then sent + 1 else sent))"

text \<open>The result is the producer at the end and the reported count, or the error raised.\<close>

definition produce_to_kafka :: "runtime \<Rightarrow> broker \<Rightarrow> frame \<Rightarrow> producer \<times> (error + nat)" where
  "produce_to_kafka R B df =
     (let p0 = \<lparr>attempted = [], flushed = False, closed = False\<rparr>
      in if \<not> connects B then (p0, Inl BrokerError)
         else (case send_loop R B (rows df) p0 0 of
                 (p, Inl e) \<Rightarrow> (p, Inl e)
               | (p, Inr sent) \<Rightarrow>
                   if flush_raises B then (p, Inl BrokerError)
                   else if close_raises B then (p\<lparr>flushed := True\<rparr>, Inl BrokerError)
                   else (p\<lparr>flushed := True, closed := True\<rparr>, Inr sent)))"

section \<open>The heuristics as the specification words them\<close>

text \<open>
  The patterns, stated without a matcher. A numeral is a run of digits, or two runs with a
  dot between them; \<open>float_of\<close> is the float that \<open>float\<close> makes of it.
  \<open>million_at t i g\<close>: at position \<open>i\<close> of \<open>t\<close> stands the numeral \<open>g\<close>, then any
  whitespace, then \<open>million\<close>. \<open>run4_at t i g\<close>: at position \<open>i\<close> starts the run of
  digits \<open>g\<close>, of four digits or more, and no digit follows it. \<open>first_at\<close> picks the
  leftmost position. \<open>layered\<close> is the priority order of the specification.
  \<open>ascii_lower\<close> is the lower-case form of an ASCII letter, for matching without regard
  to case.
\<close>

definition ascii_lower :: "pychar \<Rightarrow> pychar" where
  "ascii_lower c = (if 65 \<le> c \<and> c \<le> 90 then c + 32 else c)"

definition digits :: "pystring \<Rightarrow> bool" where
  "digits d \<longleftrightarrow> d \<noteq> [] \<and> list_all isdigit09 d"

definition numeral :: "pystring \<Rightarrow> bool" where
  "numeral g \<longleftrightarrow> digits g \<or> (\<exists>d f. g = d @ 46 # f \<and> digits d \<and> digits f)"

definition float_of :: "pystring \<Rightarrow> pyfloat" where
  "float_of g = round_double (decimal_value g)"

definition million_at :: "pystring \<Rightarrow> nat \<Rightarrow> pystring \<Rightarrow> bool" where
  "million_at t i g \<longleftrightarrow>
     i \<le> length t \<and> numeral g \<and>
     (\<exists>ws rest. drop i t = g @ ws @ lit ''million'' @ rest \<and> list_all isspace ws)"

definition run4_at :: "pystring \<Rightarrow> nat \<Rightarrow> pystring \<Rightarrow> bool" where
  "run4_at t i g \<longleftrightarrow>
     i \<le> length t \<and> 4 \<le> length g \<and> list_all isdigit09 g \<and>
     (\<exists>rest. drop i t = g @ rest \<and> (rest = [] \<or> \<not> isdigit09 (hd rest)))"

definition first_at :: "(nat \<Rightarrow> pystring \<Rightarrow> bool) \<Rightarrow> nat \<Rightarrow> pystring \<Rightarrow> bool" where
  "first_at P i g \<longleftrightarrow> P i g \<and> (\<forall>j<i. \<forall>h. \<not> P j h)"

definition layered :: "pystring \<Rightarrow> pyfloat option \<Rightarrow> bool" where
  "layered t r \<longleftrightarrow>
     (if \<exists>i g. million_at t i g
      then \<exists>i g. first_at (million_at t) i g \<and> r = Some (float_of g)
      else if \<exists>i g. run4_at t i g
      then \<exists>i g. first_at (run4_at t) i g \<and> r = Some (div_million (float_of g))
      else if numeral t
      then r = Some (if gt_100 (float_of t) then div_million (float_of t) else float_of t)
      else r = None)"

text \<open>
  Year parsing. \<open>four_digits_at R t i\<close>: four decimal digits stand at position \<open>i\<close> of
  \<open>t\<close>. \<open>year_value\<close> is the integer that a string of decimal digits denotes, and
  \<open>year_text\<close> the text that is searched.
  \<open>digit_runs\<close> lists the maximal runs of digits of a text from the left, and
  \<open>exact_run_year\<close> is the value of the first of them that has exactly four digits.
\<close>

definition four_digits_at :: "runtime \<Rightarrow> pystring \<Rightarrow> nat \<Rightarrow> bool" where
  "four_digits_at R t i \<longleftrightarrow> i + 4 \<le> length t \<and> list_all (isdecimal R) (take 4 (drop i t))"

definition year_value :: "runtime \<Rightarrow> pystring \<Rightarrow> int" where
  "year_value R g = int (foldl (\<lambda>a c. 10 * a + the (decimal R c)) 0 g)"

definition year_text :: "runtime \<Rightarrow> cell \<Rightarrow> pystring" where
  "year_text R v = strip_refs (py_str R v)"

fun digit_runs :: "(pychar \<Rightarrow> bool) \<Rightarrow> pystring \<Rightarrow> pystring \<Rightarrow> pystring list" where
  "digit_runs P run [] = (if run = [] then [] else [run])"
| "digit_runs P run (c # cs) =
     (if P c then digit_runs P (run @ [c]) cs
      else if run = [] then digit_runs P [] cs
      else run # digit_runs P [] cs)"

definition exact_run_year :: "runtime \<Rightarrow> pystring \<Rightarrow> int option" where
  "exact_run_year R t =
     (case find (\<lambda>g. length g = 4) (digit_runs (isdecimal R) [] t) of
        None \<Rightarrow> None
      | Some g \<Rightarrow> Some (year_value R g))"

text \<open>
  Records. A normalized record has the four fields of \<open>normalized_fields\<close>, a cleaned
  record the seven of \<open>cleaned_fields\<close>. \<open>year_of\<close> is the year \<open>extract_year\<close>
  returns. \<open>clean_steps\<close> is what the column assignments of \<open>clean_df\<close> do to one row,
  in their order. \<open>clean_row\<close> is the cleaned record of a normalized record, field by
  field: every field without reference markers, the title normalized, \<open>title_clean\<close>
  its lower-cased form, \<open>viewers_millions\<close> parsed from the viewers and \<open>year\<close> from
  the date. \<open>survives\<close> is the filter condition: the title is not empty and
  \<open>viewers_millions\<close> is present.
\<close>

definition normalized_fields :: "pystring list" where
  "normalized_fields = [lit ''title'', lit ''date'', lit ''viewers'', lit ''network'']"

definition cleaned_fields :: "pystring list" where
  "cleaned_fields =
     [lit ''title'', lit ''date'', lit ''viewers'', lit ''network'',
      lit ''title_clean'', lit ''viewers_millions'', lit ''year'']"

definition year_of :: "runtime \<Rightarrow> cell \<Rightarrow> int option" where
  "year_of R v = (case extract_year R v of Inr y \<Rightarrow> y | Inl e \<Rightarrow> None)"

definition clean_steps :: "runtime \<Rightarrow> row \<Rightarrow> row" where
  "clean_steps R r =
     (let r1 = dict_set (lit ''title'') (remove_bracket_refs R (item r (lit ''title''))) r;
          r2 = dict_set (lit ''date'') (remove_bracket_refs R (item r1 (lit ''date''))) r1;
          r3 = dict_set (lit ''viewers'') (remove_bracket_refs R (item r2 (lit ''viewers''))) r2;
          r4 = dict_set (lit ''network'') (remove_bracket_refs R (item r3 (lit ''network''))) r3;
          r5 = dict_set (lit ''title'') (normalize_title R (item r4 (lit ''title''))) r4;
          r6 = dict_set (lit ''title_clean'')
                 (Str (py_lower R (py_str R (normalize_title R (item r4 (lit ''title'')))))) r5;
          r7 = dict_set (lit ''viewers_millions'')
                 (float_cell (parse_viewers R (item r6 (lit ''viewers'')))) r6;
          r8 = dict_set (lit ''year'') (int_cell (year_of R (item r7 (lit ''date'')))) r7
      in r8)"

definition clean_row :: "runtime \<Rightarrow> row \<Rightarrow> row" where
  "clean_row R r =
     (let title = normalize_title R (remove_bracket_refs R (item r (lit ''title'')));
          date = remove_bracket_refs R (item r (lit ''date''));
          viewers = remove_bracket_refs R (item r (lit ''viewers''));
          network = remove_bracket_refs R (item r (lit ''network''))
      in [(lit ''title'', title), (lit ''date'', date), (lit ''viewers'', viewers),
          (lit ''network'', network),
          (lit ''title_clean'', Str (py_lower R (py_str R title))),
          (lit ''viewers_millions'', float_cell (parse_viewers R viewers)),
          (lit ''year'', int_cell (year_of R date))])"

definition survives :: "row \<Rightarrow> bool" where
  "survives c \<longleftrightarrow>
     item c (lit ''title'') \<noteq> Str [] \<and> item c (lit ''viewers_millions'') \<noteq> Missing"

text \<open>
  What each call of \<open>send\<close> does, given the messages handed over before: \<open>True\<close> where
  it returns, \<open>False\<close> where it raises.
\<close>

fun outcomes :: "broker \<Rightarrow> row list \<Rightarrow> row list \<Rightarrow> bool list" where
  "outcomes B hist [] = []"
| "outcomes B hist (m # ms) = (\<not> send_raises B hist m) # outcomes B (hist @ [m]) ms"

section \<open>Properties of reference-marker stripping\<close>

lemma no_span_fix: "no_span t \<Longrightarrow> sub_brackets t = t"
  by (induction t) auto

lemma bracket_end_sub_brackets:
  "bracket_end cs = None \<Longrightarrow> bracket_end (sub_brackets cs) = None"
  by (induction cs rule: sub_brackets.induct) (auto split: if_splits option.splits)

lemma no_span_sub_brackets: "no_span (sub_brackets s)"
  by (induction s rule: sub_brackets.induct)
     (auto split: option.splits simp: bracket_end_sub_brackets)

lemma no_span_drop: "no_span t \<Longrightarrow> no_span (drop n t)"
  by (induction t arbitrary: n) (auto simp: drop_Cons split: nat.splits)

lemma bracket_end_sub_dagger:
  "bracket_end cs = None \<Longrightarrow> bracket_end (sub_dagger cs) = None"
proof (induction cs rule: sub_dagger.induct)
  case 1 show ?case by simp
next
  case (2 c cs)
  show ?case
  proof (cases "take 3 (c # cs) = dagger")
    case True
    then obtain r where cs: "cs = 8364 # 160 # r" and c: "c = 226"
      by (cases cs; cases "tl cs") (auto simp: dagger_def)
    with 2 True show ?thesis by (simp add: dagger_def)
  next
    case False
    with 2 show ?thesis by (auto split: if_splits)
  qed
qed

lemma no_span_sub_dagger: "no_span t \<Longrightarrow> no_span (sub_dagger t)"
proof (induction t rule: sub_dagger.induct)
  case 1 show ?case by simp
next
  case (2 c cs)
  show ?case
  proof (cases "take 3 (c # cs) = dagger")
    case True
    with 2 show ?thesis by (simp add: no_span_drop)
  next
    case False
    with 2 show ?thesis by (auto simp: bracket_end_sub_dagger)
  qed
qed

lemma bracket_end_append: "bracket_end (xs @ ys) = None \<Longrightarrow> bracket_end xs = None"
  by (induction xs) (auto split: if_splits)

lemma no_span_append: "no_span (xs @ ys) \<Longrightarrow> no_span xs"
  by (induction xs) (auto dest: bracket_end_append)

lemma no_span_dropWhile: "no_span t \<Longrightarrow> no_span (dropWhile P t)"
  by (induction t) auto

lemma rev_dropWhile_rev_prefix: "\<exists>ys. xs = rev (dropWhile P (rev xs)) @ ys"
  by (metis rev_append takeWhile_dropWhile_id rev_swap)

lemma no_span_strip: "no_span t \<Longrightarrow> no_span (strip t)"
  unfolding strip_def
  by (metis no_span_append no_span_dropWhile rev_dropWhile_rev_prefix)

lemma no_span_strip_refs: "no_span (strip_refs s)"
  by (simp add: strip_refs_def no_span_strip no_span_sub_dagger no_span_sub_brackets)

lemma sub_dagger_length: "length (sub_dagger t) \<le> length t"
  by (induction t rule: sub_dagger.induct) (auto simp: le_SucI intro: le_trans[OF _ diff_le_self])

lemma sub_dagger_fix: "sub_dagger t = t \<longleftrightarrow> \<not> has_dagger t"
proof (induction t rule: sub_dagger.induct)
  case 1 show ?case by simp
next
  case (2 c cs)
  show ?case
  proof (cases "take 3 (c # cs) = dagger")
    case True
    have "length (sub_dagger (drop 2 cs)) \<le> length cs"
      using sub_dagger_length[of "drop 2 cs"] by simp
    then have "sub_dagger (drop 2 cs) \<noteq> c # cs" by auto
    with True show ?thesis by simp
  next
    case False
    with 2 show ?thesis by simp
  qed
qed

lemma strip_length: "length (strip t) \<le> length t"
  unfolding strip_def
  by (metis length_rev length_dropWhile_le le_trans)

lemma dropWhile_fix: "xs = [] \<or> \<not> P (hd xs) \<Longrightarrow> dropWhile P xs = xs"
  by (cases xs) auto

lemma dropWhile_rev_dropWhile_rev:
  assumes "dropWhile P y = y"
  shows "dropWhile P (rev (dropWhile P (rev y))) = rev (dropWhile P (rev y))"
proof (cases "rev (dropWhile P (rev y))")
  case Nil
  show ?thesis unfolding Nil by simp
next
  case (Cons a z)
  obtain ys where y: "y = rev (dropWhile P (rev y)) @ ys"
    using rev_dropWhile_rev_prefix by blast
  with Cons have "y = a # z @ ys" by simp
  with assms have "\<not> P a" by (metis dropWhile_eq_Cons_conv)
  with Cons show ?thesis by simp
qed

lemma strip_idem: "strip (strip t) = strip t"
  unfolding strip_def
  by (simp add: dropWhile_rev_dropWhile_rev)

lemma sub_dagger_shorter: "has_dagger t \<Longrightarrow> length (sub_dagger t) < length t"
proof (induction t rule: sub_dagger.induct)
  case 1 then show ?case by simp
next
  case (2 c cs)
  show ?case
  proof (cases "take 3 (c # cs) = dagger")
    case True
    have "length (sub_dagger (drop 2 cs)) \<le> length cs"
      using sub_dagger_length[of "drop 2 cs"] by simp
    with True show ?thesis by simp
  next
    case False
    with 2 show ?thesis by simp
  qed
qed

lemma strip_refs_twice:
  "strip_refs (strip_refs s) = strip_refs s \<longleftrightarrow> \<not> has_dagger (strip_refs s)"
proof (cases "has_dagger (strip_refs s)")
  case False
  then have "sub_dagger (strip_refs s) = strip_refs s" by (simp add: sub_dagger_fix)
  moreover have "strip (strip_refs s) = strip_refs s"
    by (simp add: strip_refs_def strip_idem)
  ultimately have "strip_refs (strip_refs s) = strip_refs s"
    using no_span_fix[OF no_span_strip_refs, of s] by (simp add: strip_refs_def[of "strip_refs s"])
  with False show ?thesis by simp
next
  case True
  let ?r = "strip_refs s"
  have "strip_refs ?r = strip (sub_dagger ?r)"
    using no_span_fix[OF no_span_strip_refs, of s] by (simp add: strip_refs_def[of "strip_refs s"])
  then have "length (strip_refs ?r) < length ?r"
    using sub_dagger_shorter[OF True] strip_length[of "sub_dagger ?r"] by simp
  then have "strip_refs ?r \<noteq> ?r" by auto
  with True show ?thesis by simp
qed


text \<open>
  C5, as amended. Stripping reference markers twice equals stripping once exactly when the
  once-stripped string holds no occurrence of the dagger artifact: the second
  substitution runs once from left to right, and removing an occurrence can join the
  characters around it into a new one, which only a second call removes. Bracket
  removal and trimming are idempotent.
\<close>

theorem remove_bracket_refs_twice:
  "remove_bracket_refs R (remove_bracket_refs R v) = remove_bracket_refs R v \<longleftrightarrow>
     (\<forall>t. remove_bracket_refs R v = Str t \<longrightarrow> \<not> has_dagger t)"
  by (cases v) (auto simp: remove_bracket_refs_def py_str_def strip_refs_twice)

theorem remove_bracket_refs_twice_witness:
  "remove_bracket_refs ascii_runtime (remove_bracket_refs ascii_runtime (Str (lit ''Fox [1][b] ''))) =
     remove_bracket_refs ascii_runtime (Str (lit ''Fox [1][b] ''))"
proof -
  have r: "remove_bracket_refs ascii_runtime (Str (lit ''Fox [1][b] '')) = Str (lit ''Fox'')"
    by (simp add: remove_bracket_refs_def py_str_def strip_refs_def strip_def dagger_def
        isspace_def lit_def)
  have "\<not> has_dagger (lit ''Fox'')"
    by (simp add: dagger_def lit_def)
  with r show ?thesis
    using remove_bracket_refs_twice [of ascii_runtime "Str (lit ''Fox [1][b] '')"] by simp
qed

text \<open>
  C5 as stated fails: in the string below the artifact is interleaved with a second one,
  so the first call leaves an artifact that the second call removes.
\<close>

theorem remove_bracket_refs_not_idempotent:
  "remove_bracket_refs ascii_runtime
       (remove_bracket_refs ascii_runtime (Str [226, 226, 8364, 160, 8364, 160, 120]))
     \<noteq> remove_bracket_refs ascii_runtime (Str [226, 226, 8364, 160, 8364, 160, 120])"
  by (simp add: remove_bracket_refs_def py_str_def strip_refs_def strip_def dagger_def
      isspace_def)

section \<open>Searching\<close>

lemma re_search_None: "re_search m t = None \<longleftrightarrow> (\<forall>i\<le>length t. m (drop i t) = None)"
proof (induction t)
  case Nil
  then show ?case by simp
next
  case (Cons c cs)
  show ?case
  proof (cases "m (c # cs)")
    case None
    have "(\<forall>i\<le>length (c # cs). m (drop i (c # cs)) = None)
            \<longleftrightarrow> m (c # cs) = None \<and> (\<forall>i\<le>length cs. m (drop i cs) = None)"
      by (auto simp: drop_Cons split: nat.splits)
    with None Cons show ?thesis by simp
  next
    case (Some g)
    then have "\<not> (\<forall>i\<le>length (c # cs). m (drop i (c # cs)) = None)"
      by (metis drop0 le0 option.distinct(1))
    with Some show ?thesis by simp
  qed
qed

lemma re_search_Some:
  "re_search m t = Some g \<longleftrightarrow>
     (\<exists>i\<le>length t. m (drop i t) = Some g \<and> (\<forall>j<i. m (drop j t) = None))"
proof (induction t)
  case Nil
  then show ?case by simp
next
  case (Cons c cs)
  show ?case
  proof (cases "m (c # cs)")
    case None
    have "(\<exists>i\<le>length (c # cs). m (drop i (c # cs)) = Some g \<and> (\<forall>j<i. m (drop j (c # cs)) = None))
            \<longleftrightarrow> (\<exists>i\<le>length cs. m (drop i cs) = Some g \<and> (\<forall>j<i. m (drop j cs) = None))"
      (is "?L \<longleftrightarrow> ?M")
    proof
      assume ?L
      then obtain i where i: "i \<le> length (c # cs)" "m (drop i (c # cs)) = Some g"
        "\<forall>j<i. m (drop j (c # cs)) = None" by blast
      with None obtain k where k: "i = Suc k" by (cases i) auto
      have "\<forall>j<k. m (drop j cs) = None"
      proof (intro allI impI)
        fix j assume "j < k"
        then have "m (drop (Suc j) (c # cs)) = None" using i(3) k by blast
        then show "m (drop j cs) = None" by simp
      qed
      with i k show ?M by auto
    next
      assume ?M
      then obtain i where i: "i \<le> length cs" "m (drop i cs) = Some g"
        "\<forall>j<i. m (drop j cs) = None" by blast
      have "\<forall>j<Suc i. m (drop j (c # cs)) = None"
      proof (intro allI impI)
        fix j assume j: "j < Suc i"
        show "m (drop j (c # cs)) = None"
          using None i(3) j by (cases j) auto
      qed
      with i show ?L by (intro exI[of _ "Suc i"]) auto
    qed
    with None Cons show ?thesis by simp
  next
    case (Some h)
    have "(\<exists>i\<le>length (c # cs). m (drop i (c # cs)) = Some g \<and> (\<forall>j<i. m (drop j (c # cs)) = None))
            \<longleftrightarrow> h = g" (is "?L \<longleftrightarrow> _")
    proof
      assume ?L
      then obtain i where i: "m (drop i (c # cs)) = Some g"
        "\<forall>j<i. m (drop j (c # cs)) = None" by blast
      have "i = 0"
      proof (rule ccontr)
        assume "i \<noteq> 0"
        then have "m (drop 0 (c # cs)) = None" using i(2) by blast
        with Some show False by simp
      qed
      with i Some show "h = g" by simp
    next
      assume "h = g"
      with Some show ?L by (intro exI[of _ 0]) auto
    qed
    with Some show ?thesis by simp
  qed
qed

lemma int_digits_total:
  "list_all (isdecimal R) g \<Longrightarrow> \<exists>n. int_digits R acc g = Inr n"
  by (induction g arbitrary: acc) (auto simp: isdecimal_def)

lemma match_year_Some:
  "match_year R s = Some g \<longleftrightarrow> 4 \<le> length s \<and> list_all (isdecimal R) (take 4 s) \<and> g = take 4 s"
  by (auto simp: match_year_def)

lemma py_int_year: "match_year R s = Some g \<Longrightarrow> \<exists>y. py_int R g = Inr y"
proof -
  assume a: "match_year R s = Some g"
  then have g: "list_all (isdecimal R) g" "g \<noteq> []" by (auto simp: match_year_Some)
  from int_digits_total[OF g(1), of 0] obtain n where "int_digits R 0 g = Inr n" by blast
  with g(2) show ?thesis by (simp add: py_int_def)
qed

lemma extract_year_total: "\<exists>y. extract_year R v = Inr y"
proof (cases "v = Missing")
  case True
  then show ?thesis by (simp add: extract_year_def)
next
  case False
  let ?s = "py_str R (remove_bracket_refs R (Str (py_str R v)))"
  show ?thesis
  proof (cases "re_search (match_year R) ?s")
    case None
    with False show ?thesis by (simp add: extract_year_def)
  next
    case (Some g)
    then obtain i where "match_year R (drop i ?s) = Some g"
      by (auto simp: re_search_Some)
    from py_int_year[OF this] obtain y where "py_int R g = Inr y" by blast
    with Some False show ?thesis by (simp add: extract_year_def)
  qed
qed

section \<open>Numbers and loops\<close>

lemma pow2_pos: "0 < pow2 e"
  by (simp add: pow2_def)

lemma round_half_even_nonneg: "0 \<le> q \<Longrightarrow> 0 \<le> round_half_even q"
  by (auto simp: round_half_even_def Let_def)

lemma round_pos_nonneg: "0 \<le> q \<Longrightarrow> round_pos q = Some r \<Longrightarrow> 0 \<le> r"
  by (auto simp: round_pos_def Let_def pow2_pos less_imp_le round_half_even_nonneg split: if_splits)

lemma round_double_nonneg: "0 \<le> q \<Longrightarrow> nonneg (round_double q)"
  by (auto simp: round_double_def nonneg_def round_pos_nonneg split: option.splits)

lemma decimal_value_nonneg: "0 \<le> decimal_value s"
  by (simp add: decimal_value_def Let_def)

lemma py_float_nonneg: "py_float s = Inr v \<Longrightarrow> nonneg v"
  by (auto simp: py_float_def round_double_nonneg decimal_value_nonneg split: if_splits)

lemma div_million_nonneg: "nonneg x \<Longrightarrow> nonneg (div_million x)"
  by (cases x) (auto simp: div_million_def nonneg_def[of "Finite _"] nonneg_def[of PosInf] nonneg_def[of NegInf] round_double_nonneg)

lemma parse_viewers_nonneg: "parse_viewers R val = Some x \<Longrightarrow> nonneg x"
  by (auto simp: parse_viewers_def Let_def py_float_nonneg div_million_nonneg
      split: if_splits option.splits sum.splits)


lemma unify_rows_eq: "unify_rows R rs acc = acc @ map (unify_row R) rs"
  by (induction rs arbitrary: acc) auto

lemma unify_loop_eq: "unify_loop R dfs acc = acc @ map (unify_row R) (concat (map rows dfs))"
  by (induction dfs arbitrary: acc) (auto simp: unify_rows_eq)


lemma send_loop_eq:
  "map_err (build_msg R) rs = Inr msgs \<Longrightarrow>
   send_loop R B rs p sent =
     (p\<lparr>attempted := attempted p @ msgs\<rparr>,
      Inr (sent + length (filter id (outcomes B (attempted p) msgs))))"
proof (induction rs arbitrary: p sent msgs)
  case Nil
  then show ?case by simp
next
  case (Cons r rs)
  then show ?case
    by (auto simp: send_def split: sum.splits)
qed

section \<open>Numerals and patterns\<close>

lemma takeWhile_run:
  "list_all P xs \<Longrightarrow> r = [] \<or> \<not> P (hd r) \<Longrightarrow> takeWhile P (xs @ r) = xs"
  by (induction xs) (auto simp: takeWhile_eq_Nil_iff)

lemma dropWhile_run:
  "list_all P xs \<Longrightarrow> r = [] \<or> \<not> P (hd r) \<Longrightarrow> dropWhile P (xs @ r) = r"
  by (induction xs) (auto simp: dropWhile_eq_self_iff)

lemma not_digit_46: "\<not> isdigit09 46"
  by (simp add: isdigit09_def)

lemma number_prefix_prefix: "\<exists>r. s = number_prefix s @ r"
proof -
  let ?d = "takeWhile isdigit09 s" and ?r = "dropWhile isdigit09 s"
  have s: "s = ?d @ ?r" by simp
  show ?thesis
  proof (cases "?d = []")
    case True
    then show ?thesis by (simp add: number_prefix_def)
  next
    case False
    show ?thesis
    proof (cases "\<exists>c c' x. ?r = c # c' # x \<and> c = 46 \<and> isdigit09 c'")
      case True
      then obtain c' x where r: "?r = 46 # c' # x" "isdigit09 c'" by blast
      have "number_prefix s = ?d @ 46 # takeWhile isdigit09 (c' # x)"
        using False r by (simp add: number_prefix_def Let_def)
      moreover have "s = (?d @ 46 # takeWhile isdigit09 (c' # x)) @ dropWhile isdigit09 (c' # x)"
        using s r(1) by (metis append.assoc append_Cons takeWhile_dropWhile_id)
      ultimately show ?thesis by metis
    next
      case F2: False
      then have "number_prefix s = ?d"
        using False by (auto simp: number_prefix_def Let_def split: list.splits)
      with s show ?thesis by metis
    qed
  qed
qed

lemma number_prefix_numeral: "number_prefix s \<noteq> [] \<Longrightarrow> numeral (number_prefix s)"
proof -
  assume ne: "number_prefix s \<noteq> []"
  let ?d = "takeWhile isdigit09 s" and ?r = "dropWhile isdigit09 s"
  from ne have d: "?d \<noteq> []" by (auto simp: number_prefix_def Let_def split: if_splits)
  have dd: "digits ?d" using d by (simp add: digits_def list_all_iff) (meson set_takeWhileD)
  show ?thesis
  proof (cases "\<exists>c c' x. ?r = c # c' # x \<and> c = 46 \<and> isdigit09 c'")
    case True
    then obtain c' x where r: "?r = 46 # c' # x" "isdigit09 c'" by blast
    have np: "number_prefix s = ?d @ 46 # takeWhile isdigit09 (c' # x)"
      using d r by (simp add: number_prefix_def Let_def)
    have "digits (takeWhile isdigit09 (c' # x))"
      using r(2) by (simp add: digits_def list_all_iff) (meson set_takeWhileD)
    with dd np show ?thesis unfolding numeral_def by metis
  next
    case False
    then have "number_prefix s = ?d"
      using d by (auto simp: number_prefix_def Let_def split: list.splits)
    with dd show ?thesis by (simp add: numeral_def)
  qed
qed

lemma numeral_number_prefix:
  assumes "numeral g" and "r = [] \<or> (\<not> isdigit09 (hd r) \<and> hd r \<noteq> 46)"
  shows "number_prefix (g @ r) = g"
  using assms(1) unfolding numeral_def
proof
  assume g: "digits g"
  then have la: "list_all isdigit09 g" by (simp add: digits_def)
  from assms(2) have r': "r = [] \<or> \<not> isdigit09 (hd r)" by blast
  have t: "takeWhile isdigit09 (g @ r) = g" "dropWhile isdigit09 (g @ r) = r"
    by (rule takeWhile_run[OF la r'], rule dropWhile_run[OF la r'])
  from g have "g \<noteq> []" by (simp add: digits_def)
  with t assms(2) show ?thesis
    by (auto simp: number_prefix_def Let_def split: list.splits)
next
  assume "\<exists>d f. g = d @ 46 # f \<and> digits d \<and> digits f"
  then obtain d f where g: "g = d @ 46 # f" "digits d" "digits f" by blast
  from g(3) obtain c' x where f: "f = c' # x" "isdigit09 c'"
    by (cases f) (auto simp: digits_def)
  from g(2) have ld: "list_all isdigit09 d" by (simp add: digits_def)
  from g(3) have lf: "list_all isdigit09 f" by (simp add: digits_def)
  from assms(2) have r': "r = [] \<or> \<not> isdigit09 (hd r)" by blast
  have r46: "46 # f @ r = [] \<or> \<not> isdigit09 (hd (46 # f @ r))" by (simp add: not_digit_46)
  have t: "takeWhile isdigit09 (g @ r) = d" "dropWhile isdigit09 (g @ r) = 46 # f @ r"
    using takeWhile_run[OF ld r46] dropWhile_run[OF ld r46] g(1) by simp_all
  have "takeWhile isdigit09 (f @ r) = f"
    by (rule takeWhile_run[OF lf r'])
  with t g f show ?thesis
    by (auto simp: number_prefix_def Let_def digits_def)
qed

lemma is_number_numeral: "is_number g \<longleftrightarrow> numeral g"
proof
  assume "is_number g"
  then show "numeral g"
    using number_prefix_numeral[of g] by (auto simp: is_number_def)
next
  assume n: "numeral g"
  then have "g \<noteq> []" by (auto simp: numeral_def digits_def)
  moreover have "number_prefix g = g" using numeral_number_prefix[OF n, of "[]"] by simp
  ultimately show "is_number g" by (simp add: is_number_def)
qed

lemma million_lit: "lit ''million'' = [109, 105, 108, 108, 105, 111, 110]"
  by (simp add: lit_def)

lemma isspace_not_number: "isspace c \<Longrightarrow> \<not> isdigit09 c \<and> c \<noteq> 46"
  by (auto simp: isspace_def isdigit09_def)

lemma not_isspace_109: "\<not> isspace 109"
  by (simp add: isspace_def)

lemma isspace_10: "isspace 10"
  by (simp add: isspace_def)

lemma match_million_iff:
  "match_million s = Some g \<longleftrightarrow>
     numeral g \<and> (\<exists>ws rest. s = g @ ws @ lit ''million'' @ rest \<and> list_all isspace ws)"
proof
  assume m: "match_million s = Some g"
  then have g: "g = number_prefix s" "g \<noteq> []"
    and t: "take 7 (dropWhile isspace (drop (length g) s)) = lit ''million''"
    by (auto simp: match_million_def Let_def split: if_splits)
  from g have n: "numeral g" using number_prefix_numeral by simp
  obtain r where r: "s = g @ r" using number_prefix_prefix g(1) by blast
  then have dr: "drop (length g) s = r" by simp
  have "dropWhile isspace r = take 7 (dropWhile isspace r) @ drop 7 (dropWhile isspace r)"
    by simp
  with t dr have "dropWhile isspace r = lit ''million'' @ drop 7 (dropWhile isspace r)"
    by simp
  then have "r = takeWhile isspace r @ lit ''million'' @ drop 7 (dropWhile isspace r)"
    by (metis takeWhile_dropWhile_id)
  moreover have "list_all isspace (takeWhile isspace r)"
    by (simp add: list_all_iff) (meson set_takeWhileD)
  ultimately show "numeral g \<and> (\<exists>ws rest. s = g @ ws @ lit ''million'' @ rest \<and> list_all isspace ws)"
    using n r by blast
next
  assume "numeral g \<and> (\<exists>ws rest. s = g @ ws @ lit ''million'' @ rest \<and> list_all isspace ws)"
  then obtain ws rest where n: "numeral g" and s: "s = g @ ws @ lit ''million'' @ rest"
    and ws: "list_all isspace ws" by blast
  let ?r = "ws @ lit ''million'' @ rest"
  have hd: "\<not> isdigit09 (hd ?r) \<and> hd ?r \<noteq> 46"
  proof (cases ws)
    case Nil
    then show ?thesis by (simp add: million_lit isdigit09_def)
  next
    case (Cons w ws')
    with ws show ?thesis by (simp add: isspace_not_number)
  qed
  have np: "number_prefix s = g"
    using numeral_number_prefix[OF n, of ?r] hd s by simp
  from n have ne: "g \<noteq> []" by (auto simp: numeral_def digits_def)
  have m1: "lit ''million'' @ rest = [] \<or> \<not> isspace (hd (lit ''million'' @ rest))"
    by (simp add: million_lit not_isspace_109)
  have "dropWhile isspace ?r = lit ''million'' @ rest"
    by (rule dropWhile_run[OF ws m1])
  then have "take 7 (dropWhile isspace (drop (length g) s)) = lit ''million''"
    using s by (simp add: million_lit)
  with np ne show "match_million s = Some g"
    by (simp add: match_million_def Let_def)
qed

lemma match_digits4_iff:
  "match_digits4 s = Some g \<longleftrightarrow>
     4 \<le> length g \<and> list_all isdigit09 g \<and>
     (\<exists>rest. s = g @ rest \<and> (rest = [] \<or> \<not> isdigit09 (hd rest)))"
proof
  assume "match_digits4 s = Some g"
  then have g: "g = takeWhile isdigit09 s" "4 \<le> length g"
    by (auto simp: match_digits4_def Let_def split: if_splits)
  have "s = g @ dropWhile isdigit09 s" using g(1) by simp
  moreover have "dropWhile isdigit09 s = [] \<or> \<not> isdigit09 (hd (dropWhile isdigit09 s))"
    by (meson hd_dropWhile)
  moreover have "list_all isdigit09 g"
    using g(1) by (simp add: list_all_iff) (meson set_takeWhileD)
  ultimately show "4 \<le> length g \<and> list_all isdigit09 g \<and>
     (\<exists>rest. s = g @ rest \<and> (rest = [] \<or> \<not> isdigit09 (hd rest)))"
    using g(2) by blast
next
  assume "4 \<le> length g \<and> list_all isdigit09 g \<and>
     (\<exists>rest. s = g @ rest \<and> (rest = [] \<or> \<not> isdigit09 (hd rest)))"
  then obtain rest where g: "4 \<le> length g" "list_all isdigit09 g"
    and s: "s = g @ rest" and r: "rest = [] \<or> \<not> isdigit09 (hd rest)" by blast
  have "takeWhile isdigit09 s = g" unfolding s by (rule takeWhile_run[OF g(2) r])
  with g(1) show "match_digits4 s = Some g" by (simp add: match_digits4_def Let_def)
qed

lemma strip_last: "strip s \<noteq> [] \<Longrightarrow> \<not> isspace (last (strip s))"
proof -
  assume ne: "strip s \<noteq> []"
  let ?x = "dropWhile isspace (rev (dropWhile isspace s))"
  from ne have x: "?x \<noteq> []" by (simp add: strip_def)
  then have "\<not> isspace (hd ?x)" by (rule hd_dropWhile)
  moreover have "last (strip s) = hd ?x" using x by (simp add: strip_def last_rev)
  ultimately show ?thesis by simp
qed

lemma match_whole_strip:
  "match_whole (strip s) = Some g \<longleftrightarrow> numeral (strip s) \<and> g = strip s"
proof
  assume m: "match_whole (strip s) = Some g"
  then have g: "g = number_prefix (strip s)" "g \<noteq> []"
    and r: "drop (length g) (strip s) = [] \<or> drop (length g) (strip s) = [10]"
    by (auto simp: match_whole_def Let_def split: if_splits)
  obtain x where x: "strip s = g @ x" using number_prefix_prefix g(1) by blast
  with r have "x = [] \<or> x = [10]" by simp
  moreover have "x \<noteq> [10]"
  proof
    assume "x = [10]"
    with x have "last (strip s) = 10" "strip s \<noteq> []" by simp_all
    with strip_last[of s] show False by (simp add: isspace_10)
  qed
  ultimately have "strip s = g" using x by simp
  with g number_prefix_numeral[of "strip s"] show "numeral (strip s) \<and> g = strip s" by simp
next
  assume a: "numeral (strip s) \<and> g = strip s"
  then have "number_prefix (strip s) = strip s"
    using numeral_number_prefix[of "strip s" "[]"] by simp
  moreover from a have "strip s \<noteq> []" by (auto simp: numeral_def digits_def)
  ultimately show "match_whole (strip s) = Some g"
    using a by (simp add: match_whole_def Let_def)
qed

lemma py_float_numeral: "numeral g \<Longrightarrow> py_float g = Inr (float_of g)"
  by (simp add: py_float_def float_of_def is_number_numeral)

lemma million_at_match:
  "million_at t i g \<longleftrightarrow> i \<le> length t \<and> match_million (drop i t) = Some g"
  by (simp add: million_at_def match_million_iff)

lemma run4_at_match:
  "run4_at t i g \<longleftrightarrow> i \<le> length t \<and> match_digits4 (drop i t) = Some g"
  by (auto simp: run4_at_def match_digits4_iff)

lemma first_at_search:
  assumes "\<And>i g. P i g \<longleftrightarrow> i \<le> length t \<and> m (drop i t) = Some g"
  shows "(\<exists>i. first_at P i g) \<longleftrightarrow> re_search m t = Some g"
proof
  assume "\<exists>i. first_at P i g"
  then obtain i where i: "P i g" "\<forall>j<i. \<forall>h. \<not> P j h"
    by (auto simp: first_at_def)
  from i(1) have il: "i \<le> length t" "m (drop i t) = Some g" by (simp_all add: assms)
  have "\<forall>j<i. m (drop j t) = None"
  proof (intro allI impI)
    fix j assume j: "j < i"
    with il have "j \<le> length t" by simp
    with i(2) j have "\<forall>h. m (drop j t) \<noteq> Some h" by (simp add: assms)
    then show "m (drop j t) = None" by (cases "m (drop j t)") auto
  qed
  with il show "re_search m t = Some g" unfolding re_search_Some by blast
next
  assume "re_search m t = Some g"
  then obtain i where i: "i \<le> length t" "m (drop i t) = Some g"
    "\<forall>j<i. m (drop j t) = None" unfolding re_search_Some by blast
  then have "P i g" by (simp add: assms)
  moreover have "\<forall>j<i. \<forall>h. \<not> P j h" using i(3) by (simp add: assms)
  ultimately show "\<exists>i. first_at P i g" unfolding first_at_def by blast
qed

lemma exists_search:
  assumes "\<And>i g. P i g \<longleftrightarrow> i \<le> length t \<and> m (drop i t) = Some g"
  shows "(\<exists>i g. P i g) \<longleftrightarrow> re_search m t \<noteq> None"
proof -
  have "re_search m t \<noteq> None \<longleftrightarrow> (\<exists>i\<le>length t. m (drop i t) \<noteq> None)"
    by (simp add: re_search_None)
  also have "\<dots> \<longleftrightarrow> (\<exists>i g. P i g)"
    by (auto simp: assms)
  finally show ?thesis by simp
qed

lemma viewers_text_strip: "\<exists>x. viewers_text R val = strip x"
  unfolding viewers_text_def Let_def by blast

lemma search_million_numeral: "re_search match_million t = Some g \<Longrightarrow> numeral g"
  by (auto simp: re_search_Some match_million_iff)

lemma search_digits4_numeral: "re_search match_digits4 t = Some g \<Longrightarrow> numeral g"
proof -
  assume "re_search match_digits4 t = Some g"
  then have "4 \<le> length g" "list_all isdigit09 g"
    by (auto simp: re_search_Some match_digits4_iff)
  then have "digits g" by (auto simp: digits_def)
  then show ?thesis by (simp add: numeral_def)
qed

lemma layered_million:
  assumes "re_search match_million t = Some g"
  shows "layered t r \<longleftrightarrow> r = Some (float_of g)"
proof -
  have ex: "(\<exists>i g. million_at t i g) = True"
    using exists_search[of "million_at t" t match_million] assms
    by (simp add: million_at_match)
  have "(\<exists>i h. first_at (million_at t) i h \<and> r = Some (float_of h))
          \<longleftrightarrow> (\<exists>h. re_search match_million t = Some h \<and> r = Some (float_of h))"
    using first_at_search[of "million_at t" t match_million]
    by (metis million_at_match)
  with assms show ?thesis unfolding layered_def ex by simp
qed

lemma layered_run4:
  assumes "re_search match_million t = None" and "re_search match_digits4 t = Some g"
  shows "layered t r \<longleftrightarrow> r = Some (div_million (float_of g))"
proof -
  have nex: "(\<exists>i g. million_at t i g) = False"
    using exists_search[of "million_at t" t match_million] assms(1)
    by (simp add: million_at_match)
  have ex: "(\<exists>i g. run4_at t i g) = True"
    using exists_search[of "run4_at t" t match_digits4] assms(2)
    by (simp add: run4_at_match)
  have "(\<exists>i h. first_at (run4_at t) i h \<and> r = Some (div_million (float_of h)))
          \<longleftrightarrow> (\<exists>h. re_search match_digits4 t = Some h \<and> r = Some (div_million (float_of h)))"
    using first_at_search[of "run4_at t" t match_digits4]
    by (metis run4_at_match)
  with assms(2) show ?thesis unfolding layered_def nex ex by simp
qed

lemma layered_whole:
  assumes "re_search match_million t = None" and "re_search match_digits4 t = None"
  shows "layered t r \<longleftrightarrow>
           (if numeral t
            then r = Some (if gt_100 (float_of t) then div_million (float_of t) else float_of t)
            else r = None)"
proof -
  have a: "(\<exists>i g. million_at t i g) = False"
    using exists_search[of "million_at t" t match_million] assms(1)
    by (simp add: million_at_match)
  have b: "(\<exists>i g. run4_at t i g) = False"
    using exists_search[of "run4_at t" t match_digits4] assms(2)
    by (simp add: run4_at_match)
  show ?thesis unfolding layered_def a b by simp
qed

lemma parse_viewers_layered:
  assumes "val \<noteq> Missing"
  shows "layered (viewers_text R val) r \<longleftrightarrow> parse_viewers R val = r"
proof -
  let ?t = "viewers_text R val"
  obtain x where x: "?t = strip x" using viewers_text_strip by blast
  show ?thesis
  proof (cases "re_search match_million ?t")
    case (Some g)
    have "py_float g = Inr (float_of g)"
      using search_million_numeral[OF Some] by (rule py_float_numeral)
    with Some assms have "parse_viewers R val = Some (float_of g)"
      by (simp add: parse_viewers_def)
    with layered_million[OF Some, of r] show ?thesis by auto
  next
    case None
    show ?thesis
    proof (cases "re_search match_digits4 ?t")
      case (Some g)
      have "py_float g = Inr (float_of g)"
        using search_digits4_numeral[OF Some] by (rule py_float_numeral)
      with None Some assms have "parse_viewers R val = Some (div_million (float_of g))"
        by (simp add: parse_viewers_def)
      with layered_run4[OF None Some, of r] show ?thesis by auto
    next
      case N2: None
      show ?thesis
      proof (cases "numeral ?t")
        case True
        then have "match_whole ?t = Some ?t"
          using match_whole_strip[of x ?t] x by simp
        moreover have "py_float ?t = Inr (float_of ?t)"
          using True by (rule py_float_numeral)
        ultimately have "parse_viewers R val =
            Some (if gt_100 (float_of ?t) then div_million (float_of ?t) else float_of ?t)"
          using None N2 assms by (simp add: parse_viewers_def)
        with layered_whole[OF None N2, of r] True show ?thesis by auto
      next
        case False
        then have "match_whole ?t = None"
          using match_whole_strip[of x] x by (cases "match_whole ?t") auto
        with None N2 assms have "parse_viewers R val = None"
          by (simp add: parse_viewers_def)
        with layered_whole[OF None N2, of r] False show ?thesis by auto
      qed
    qed
  qed
qed

section \<open>Viewers parsing\<close>

lemmas text_eval = viewers_text_def py_lower_def py_str_def remove_bracket_refs_def
  strip_refs_def strip_def dagger_def isspace_def lit_def Let_def

lemmas match_eval = match_million_def match_digits4_def match_whole_def number_prefix_def
  isdigit09_def isspace_def lit_def Let_def

lemmas number_eval = py_float_def is_number_def number_prefix_def decimal_value_def
  isdigit09_def lit_def Let_def

lemma ex_million: "parse_viewers R (Str (lit ''20.1 million[3]'')) = Some (round_double (201 / 10))"
proof -
  have t: "viewers_text R (Str (lit ''20.1 million[3]'')) = lit ''20.1 million''"
    by (simp add: text_eval)
  have m: "re_search match_million (lit ''20.1 million'') = Some (lit ''20.1'')"
    by (simp add: match_eval)
  have f: "py_float (lit ''20.1'') = Inr (round_double (201 / 10))"
    by (simp add: number_eval)
  show ?thesis by (simp add: parse_viewers_def t m f)
qed

lemma round_1234567: "round_double 1234567 = Finite 1234567"
  by code_simp

lemma round_45: "round_double 45 = Finite 45"
  by code_simp

lemma round_450: "round_double 450 = Finite 450"
  by code_simp

lemma ex_raw: "parse_viewers R (Str (lit ''1234567'')) = Some (round_double (1234567 / 1000000))"
proof -
  have t: "viewers_text R (Str (lit ''1234567'')) = lit ''1234567''"
    by (simp add: text_eval)
  have m: "re_search match_million (lit ''1234567'') = None"
    by (simp add: match_eval)
  have d: "re_search match_digits4 (lit ''1234567'') = Some (lit ''1234567'')"
    by (simp add: match_eval)
  have f: "py_float (lit ''1234567'') = Inr (Finite 1234567)"
    by (simp add: number_eval round_1234567)
  show ?thesis by (simp add: parse_viewers_def t m d f div_million_def)
qed

lemma ex_small: "parse_viewers R (Str (lit ''45'')) = Some (Finite 45)"
proof -
  have t: "viewers_text R (Str (lit ''45'')) = lit ''45''"
    by (simp add: text_eval)
  have m: "re_search match_million (lit ''45'') = None"
    by (simp add: match_eval)
  have d: "re_search match_digits4 (lit ''45'') = None"
    by (simp add: match_eval)
  have w: "match_whole (lit ''45'') = Some (lit ''45'')"
    by (simp add: match_eval)
  have f: "py_float (lit ''45'') = Inr (Finite 45)"
    by (simp add: number_eval round_45)
  show ?thesis by (simp add: parse_viewers_def t m d w f gt_100_def)
qed

lemma ex_large: "parse_viewers R (Str (lit ''450'')) = Some (round_double (45 / 100000))"
proof -
  have t: "viewers_text R (Str (lit ''450'')) = lit ''450''"
    by (simp add: text_eval)
  have m: "re_search match_million (lit ''450'') = None"
    by (simp add: match_eval)
  have d: "re_search match_digits4 (lit ''450'') = None"
    by (simp add: match_eval)
  have w: "match_whole (lit ''450'') = Some (lit ''450'')"
    by (simp add: match_eval)
  have f: "py_float (lit ''450'') = Inr (Finite 450)"
    by (simp add: number_eval round_450)
  show ?thesis by (simp add: parse_viewers_def t m d w f gt_100_def div_million_def)
qed

lemma ex_garbage: "parse_viewers R (Str (lit ''invalid'')) = None"
proof -
  have t: "viewers_text R (Str (lit ''invalid'')) = lit ''invalid''"
    by (simp add: text_eval)
  have m: "re_search match_million (lit ''invalid'') = None"
    by (simp add: match_eval)
  have d: "re_search match_digits4 (lit ''invalid'') = None"
    by (simp add: match_eval)
  have w: "match_whole (lit ''invalid'') = None"
    by (simp add: match_eval)
  show ?thesis by (simp add: parse_viewers_def t m d w)
qed

lemma round_1234: "round_double 1234 = Finite 1234"
  by code_simp

lemma round_20: "round_double 20 = Finite 20"
  by code_simp

lemma ex_comma: "parse_viewers R (Str (lit ''1,234 million'')) = Some (Finite 1234)"
proof -
  have t: "viewers_text R (Str (lit ''1,234 million'')) = lit ''1234 million''"
    by (simp add: text_eval)
  have m: "re_search match_million (lit ''1234 million'') = Some (lit ''1234'')"
    by (simp add: match_eval)
  have f: "py_float (lit ''1234'') = Inr (Finite 1234)"
    by (simp add: number_eval round_1234)
  show ?thesis by (simp add: parse_viewers_def t m f)
qed

lemma ex_upper: "parse_viewers R (Str (lit ''20 MILLION'')) = Some (Finite 20)"
proof -
  have t: "viewers_text R (Str (lit ''20 MILLION'')) = lit ''20 million''"
    by (simp add: text_eval)
  have m: "re_search match_million (lit ''20 million'') = Some (lit ''20'')"
    by (simp add: match_eval)
  have f: "py_float (lit ''20'') = Inr (Finite 20)"
    by (simp add: number_eval round_20)
  show ?thesis by (simp add: parse_viewers_def t m f)
qed

lemma ex_marker: "parse_viewers R (Str (lit ''45[1]'')) = Some (Finite 45)"
proof -
  have t: "viewers_text R (Str (lit ''45[1]'')) = lit ''45''"
    by (simp add: text_eval)
  have m: "re_search match_million (lit ''45'') = None"
    by (simp add: match_eval)
  have d: "re_search match_digits4 (lit ''45'') = None"
    by (simp add: match_eval)
  have w: "match_whole (lit ''45'') = Some (lit ''45'')"
    by (simp add: match_eval)
  have f: "py_float (lit ''45'') = Inr (Finite 45)"
    by (simp add: number_eval round_45)
  show ?thesis by (simp add: parse_viewers_def t m d w f gt_100_def)
qed

lemma ex_blank: "parse_viewers R (Str (lit '' 45 '')) = Some (Finite 45)"
proof -
  have t: "viewers_text R (Str (lit '' 45 '')) = lit ''45''"
    by (simp add: text_eval)
  have m: "re_search match_million (lit ''45'') = None"
    by (simp add: match_eval)
  have d: "re_search match_digits4 (lit ''45'') = None"
    by (simp add: match_eval)
  have w: "match_whole (lit ''45'') = Some (lit ''45'')"
    by (simp add: match_eval)
  have f: "py_float (lit ''45'') = Inr (Finite 45)"
    by (simp add: number_eval round_45)
  show ?thesis by (simp add: parse_viewers_def t m d w f gt_100_def)
qed

lemma viewers_text_steps:
  "viewers_text R val = strip (filter (\<lambda>c. c \<noteq> 44) (strip_refs (py_lower R (py_str R val))))"
  by (simp add: viewers_text_def remove_bracket_refs_def py_str_def Let_def)

lemma py_lower_ascii:
  "list_all (\<lambda>c. c < 128) s \<Longrightarrow> py_lower R s = map ascii_lower s"
  by (simp add: py_lower_def ascii_lower_def)

lemma parse_viewers_steps:
  "val \<noteq> Missing \<Longrightarrow>
   parse_viewers R val = r \<longleftrightarrow>
   layered (strip (filter (\<lambda>c. c \<noteq> 44) (strip_refs (py_lower R (py_str R val))))) r"
  using parse_viewers_layered[of val R r] unfolding viewers_text_steps by blast

lemma parse_viewers_ascii:
  assumes "list_all (\<lambda>c. c < 128) s"
  shows "parse_viewers R (Str s) = r \<longleftrightarrow>
   layered (strip (filter (\<lambda>c. c \<noteq> 44) (strip_refs (map ascii_lower s)))) r"
proof -
  have "py_lower R (py_str R (Str s)) = map ascii_lower s"
    using py_lower_ascii[OF assms] by (simp add: py_str_def)
  with parse_viewers_steps[of "Str s" R r] show ?thesis by simp
qed

text \<open>
  C1. For a cell that is not missing, \<open>parse_viewers\<close> returns what the layered heuristic
  prescribes for the cleaned text, and nothing else. The cleaned text is the text of the
  cell, lower-cased, with reference markers removed, then every comma removed, then
  trimmed; for an ASCII string lower-casing maps \<open>A\<close> to \<open>Z\<close> to \<open>a\<close> to \<open>z\<close> and nothing
  else, whatever the runtime. The heuristic: the numeral of the leftmost
  \<open>number million\<close>; else the leftmost run of four or more digits, divided by a million;
  else the whole text if it is a numeral, divided by a million when it is above 100; else
  absent. Numbers are Python floats: \<open>20.1\<close> is the double nearest to 201/10. The five
  examples of the specification follow, and four more in which the comma, the case, the
  marker and the surrounding blanks decide the result.
\<close>

theorem parse_viewers_priority:
  "(val \<noteq> Missing \<longrightarrow>
      (parse_viewers R val = r \<longleftrightarrow>
       layered (strip (filter (\<lambda>c. c \<noteq> 44) (strip_refs (py_lower R (py_str R val))))) r)) \<and>
   (list_all (\<lambda>c. c < 128) s \<longrightarrow>
      (parse_viewers R (Str s) = r' \<longleftrightarrow>
       layered (strip (filter (\<lambda>c. c \<noteq> 44) (strip_refs (map ascii_lower s)))) r')) \<and>
   parse_viewers R (Str (lit ''20.1 million[3]'')) = Some (round_double (201 / 10)) \<and>
   parse_viewers R (Str (lit ''1234567'')) = Some (round_double (1234567 / 1000000)) \<and>
   parse_viewers R (Str (lit ''45'')) = Some (Finite 45) \<and>
   parse_viewers R (Str (lit ''450'')) = Some (round_double (45 / 100000)) \<and>
   parse_viewers R (Str (lit ''invalid'')) = None \<and>
   parse_viewers R (Str (lit ''1,234 million'')) = Some (Finite 1234) \<and>
   parse_viewers R (Str (lit ''20 MILLION'')) = Some (Finite 20) \<and>
   parse_viewers R (Str (lit ''45[1]'')) = Some (Finite 45) \<and>
   parse_viewers R (Str (lit '' 45 '')) = Some (Finite 45)"
  using parse_viewers_steps[of val R r] parse_viewers_ascii[of s R r']
    ex_million ex_raw ex_small ex_large ex_garbage ex_comma ex_upper ex_marker ex_blank
  by blast

lemmas clean_eval = py_lower_def py_str_def ascii_lower_def
  strip_refs_def strip_def dagger_def isspace_def lit_def

theorem parse_viewers_priority_witness:
  "Str (lit ''1,234 Million[a]'') \<noteq> Missing \<and>
   list_all (\<lambda>c. c < 128) (lit ''20 MILLION'') \<and>
   (parse_viewers ascii_runtime (Str (lit ''1,234 Million[a]'')) = Some (Finite 1234) \<longleftrightarrow>
    layered (lit ''1234 million'') (Some (Finite 1234))) \<and>
   layered (lit ''20 million'') (Some (Finite 20))"
proof -
  have a: "strip (filter (\<lambda>c. c \<noteq> 44) (strip_refs
      (py_lower ascii_runtime (py_str ascii_runtime (Str (lit ''1,234 Million[a]''))))))
      = lit ''1234 million''"
    by (simp add: clean_eval)
  have b: "strip (filter (\<lambda>c. c \<noteq> 44) (strip_refs (map ascii_lower (lit ''20 MILLION''))))
      = lit ''20 million''"
    by (simp add: clean_eval)
  have c: "list_all (\<lambda>c. c < 128) (lit ''20 MILLION'')"
    by (simp add: lit_def)
  show ?thesis
    using parse_viewers_priority[of "Str (lit ''1,234 Million[a]'')" ascii_runtime
        "Some (Finite 1234)" "lit ''20 MILLION''" "Some (Finite 20)"] c
    unfolding a b by auto
qed

section \<open>Year parsing\<close>

lemma int_digits_value:
  "list_all (isdecimal R) g \<Longrightarrow>
   int_digits R acc g = Inr (foldl (\<lambda>a c. 10 * a + the (decimal R c)) acc g)"
  by (induction g arbitrary: acc) (auto simp: isdecimal_def)

lemma py_int_year_value:
  "list_all (isdecimal R) g \<Longrightarrow> g \<noteq> [] \<Longrightarrow> py_int R g = Inr (year_value R g)"
  by (simp add: py_int_def year_value_def int_digits_value)

lemma match_year_at:
  "match_year R (drop i t) = Some g \<longleftrightarrow> four_digits_at R t i \<and> g = take 4 (drop i t)"
  by (auto simp: match_year_def four_digits_at_def)

lemma match_year_None: "match_year R (drop i t) = None \<longleftrightarrow> \<not> four_digits_at R t i"
  by (auto simp: match_year_def four_digits_at_def)

lemma extract_year_text:
  "v \<noteq> Missing \<Longrightarrow>
   extract_year R v =
     (case re_search (match_year R) (year_text R v) of
        Some g \<Rightarrow> (case py_int R g of Inl e \<Rightarrow> Inl e | Inr y \<Rightarrow> Inr (Some y))
      | None \<Rightarrow> Inr None)"
  by (simp add: extract_year_def year_text_def remove_bracket_refs_def py_str_def)

lemma extract_year_first:
  assumes "v \<noteq> Missing"
  shows "extract_year R v = Inr y \<longleftrightarrow>
     (if \<exists>i. four_digits_at R (year_text R v) i
      then \<exists>i. four_digits_at R (year_text R v) i \<and>
               (\<forall>j<i. \<not> four_digits_at R (year_text R v) j) \<and>
               y = Some (year_value R (take 4 (drop i (year_text R v))))
      else y = None)"
proof -
  define t where "t = year_text R v"
  have ex: "extract_year R v =
     (case re_search (match_year R) t of
        Some g \<Rightarrow> (case py_int R g of Inl e \<Rightarrow> Inl e | Inr y \<Rightarrow> Inr (Some y))
      | None \<Rightarrow> Inr None)"
    unfolding t_def using assms by (rule extract_year_text)
  have goal: "extract_year R v = Inr y \<longleftrightarrow>
     (if \<exists>i. four_digits_at R t i
      then \<exists>i. four_digits_at R t i \<and> (\<forall>j<i. \<not> four_digits_at R t j) \<and>
               y = Some (year_value R (take 4 (drop i t)))
      else y = None)"
  proof (cases "re_search (match_year R) t")
    case None
    then have a: "\<forall>i\<le>length t. match_year R (drop i t) = None"
      by (simp only: re_search_None)
    have no: "\<not> four_digits_at R t i" for i
    proof (cases "i \<le> length t")
      case True
      with a have "match_year R (drop i t) = None" by blast
      then show ?thesis using match_year_None[of R i t] by blast
    next
      case False
      then show ?thesis by (simp add: four_digits_at_def)
    qed
    from None have e: "extract_year R v = Inr None"
      by (simp add: ex)
    have "(\<exists>i. four_digits_at R t i) = False" using no by blast
    then show ?thesis unfolding e by auto
  next
    case (Some g)
    then obtain i where i: "i \<le> length t" "match_year R (drop i t) = Some g"
      "\<forall>j<i. match_year R (drop j t) = None"
      unfolding re_search_Some by blast
    from i(2) have fi: "four_digits_at R t i" and g: "g = take 4 (drop i t)"
      using match_year_at[of R i t g] by blast+
    have first: "\<not> four_digits_at R t j" if "j < i" for j
    proof -
      from i(3) that have "match_year R (drop j t) = None" by blast
      then show ?thesis using match_year_None[of R j t] by blast
    qed
    from fi have "list_all (isdecimal R) g" "g \<noteq> []"
      unfolding g four_digits_at_def by auto
    then have "py_int R g = Inr (year_value R g)" by (rule py_int_year_value)
    with Some have ey: "extract_year R v = Inr (Some (year_value R g))"
      by (simp add: ex)
    have uniq: "k = i" if k: "four_digits_at R t k" "\<forall>j<k. \<not> four_digits_at R t j" for k
    proof (rule ccontr)
      assume "k \<noteq> i"
      then consider "k < i" | "i < k" by arith
      then show False
      proof cases
        case 1
        from first[OF 1] k(1) show False by blast
      next
        case 2
        with k(2) fi show False by blast
      qed
    qed
    have rhs: "(\<exists>k. four_digits_at R t k \<and> (\<forall>j<k. \<not> four_digits_at R t j) \<and>
               y = Some (year_value R (take 4 (drop k t))))
          \<longleftrightarrow> y = Some (year_value R g)" (is "?L \<longleftrightarrow> ?Rr")
    proof
      assume ?L
      then obtain k where k: "four_digits_at R t k" "\<forall>j<k. \<not> four_digits_at R t j"
        "y = Some (year_value R (take 4 (drop k t)))" by blast
      from uniq[OF k(1) k(2)] k(3) show ?Rr unfolding g by simp
    next
      assume r: ?Rr
      have "four_digits_at R t i \<and> (\<forall>j<i. \<not> four_digits_at R t j) \<and>
            y = Some (year_value R (take 4 (drop i t)))"
        using fi first r unfolding g by blast
      then show ?L by (rule exI)
    qed
    have e: "(\<exists>i. four_digits_at R t i) = True" using fi by blast
    show ?thesis unfolding e rhs ey by auto
  qed
  then show ?thesis unfolding t_def .
qed

lemmas refs_eval = year_text_def py_str_def remove_bracket_refs_def
  strip_refs_def strip_def dagger_def isspace_def lit_def

lemmas year_eval = match_year_def isdecimal_def decimal_def isdigit09_def lit_def

lemma year_ex1: "extract_year R (Str (lit ''March 3, 2008[a]'')) = Inr (Some 2008)"
proof -
  have t: "year_text R (Str (lit ''March 3, 2008[a]'')) = lit ''March 3, 2008''"
    by (simp add: refs_eval)
  have m: "re_search (match_year R) (lit ''March 3, 2008'') = Some (lit ''2008'')"
    by (simp add: year_eval)
  have "list_all (isdecimal R) (lit ''2008'')" "lit ''2008'' \<noteq> []"
    by (simp_all add: year_eval)
  then have "py_int R (lit ''2008'') = Inr (year_value R (lit ''2008''))"
    by (rule py_int_year_value)
  moreover have "year_value R (lit ''2008'') = 2008"
    by (simp add: year_value_def decimal_def isdigit09_def lit_def)
  ultimately show ?thesis by (simp add: extract_year_text t m)
qed

lemma year_ex2: "extract_year R (Str (lit ''unknown'')) = Inr None"
proof -
  have t: "year_text R (Str (lit ''unknown'')) = lit ''unknown''"
    by (simp add: refs_eval)
  have m: "re_search (match_year R) (lit ''unknown'') = None"
    by (simp add: year_eval)
  show ?thesis by (simp add: extract_year_text t m)
qed

lemma year_ex4: "extract_year R (Str (lit ''[1999] 2008'')) = Inr (Some 2008)"
proof -
  have t: "year_text R (Str (lit ''[1999] 2008'')) = lit ''2008''"
    by (simp add: refs_eval)
  have m: "re_search (match_year R) (lit ''2008'') = Some (lit ''2008'')"
    by (simp add: year_eval)
  have "list_all (isdecimal R) (lit ''2008'')" "lit ''2008'' \<noteq> []"
    by (simp_all add: year_eval)
  then have "py_int R (lit ''2008'') = Inr (year_value R (lit ''2008''))"
    by (rule py_int_year_value)
  moreover have "year_value R (lit ''2008'') = 2008"
    by (simp add: year_value_def decimal_def isdigit09_def lit_def)
  ultimately show ?thesis by (simp add: extract_year_text t m)
qed

lemma year_ex3: "extract_year R (Str (lit ''12345'')) = Inr (Some 1234)"
proof -
  have t: "year_text R (Str (lit ''12345'')) = lit ''12345''"
    by (simp add: refs_eval)
  have m: "re_search (match_year R) (lit ''12345'') = Some (lit ''1234'')"
    by (simp add: year_eval)
  have "list_all (isdecimal R) (lit ''1234'')" "lit ''1234'' \<noteq> []"
    by (simp_all add: year_eval)
  then have "py_int R (lit ''1234'') = Inr (year_value R (lit ''1234''))"
    by (rule py_int_year_value)
  moreover have "year_value R (lit ''1234'') = 1234"
    by (simp add: year_value_def decimal_def isdigit09_def lit_def)
  ultimately show ?thesis by (simp add: extract_year_text t m)
qed

text \<open>
  C4. For a date that is not missing, \<open>extract_year\<close> returns the integer value of the
  first four consecutive decimal digits of the text after reference-marker stripping,
  whether or not further digits follow them, and absent when the text has no four
  consecutive digits; it never raises there. \<open>March 3, 2008[a]\<close> yields 2008,
  \<open>unknown\<close> yields absent, \<open>[1999] 2008\<close> yields 2008 and \<open>12345\<close> yields 1234.
\<close>

theorem extract_year_first_four:
  "(v \<noteq> Missing \<longrightarrow>
     (extract_year R v = Inr y \<longleftrightarrow>
       (if \<exists>i. four_digits_at R (strip_refs (py_str R v)) i
        then \<exists>i. four_digits_at R (strip_refs (py_str R v)) i \<and>
                 (\<forall>j<i. \<not> four_digits_at R (strip_refs (py_str R v)) j) \<and>
                 y = Some (year_value R (take 4 (drop i (strip_refs (py_str R v)))))
        else y = None))) \<and>
   extract_year R (Str (lit ''March 3, 2008[a]'')) = Inr (Some 2008) \<and>
   extract_year R (Str (lit ''unknown'')) = Inr None \<and>
   extract_year R (Str (lit ''[1999] 2008'')) = Inr (Some 2008) \<and>
   extract_year R (Str (lit ''12345'')) = Inr (Some 1234)"
  using extract_year_first[of v R y] year_ex1 year_ex2 year_ex3 year_ex4
  unfolding year_text_def by blast

theorem extract_year_first_four_witness:
  "Str (lit ''in 12345'') \<noteq> Missing \<and>
   four_digits_at ascii_runtime (lit ''in 12345'') 3 \<and>
   \<not> four_digits_at ascii_runtime (lit ''in 12345'') 0 \<and>
   \<not> four_digits_at ascii_runtime (lit ''in 12345'') 1 \<and>
   \<not> four_digits_at ascii_runtime (lit ''in 12345'') 2 \<and>
   extract_year ascii_runtime (Str (lit ''in 12345'')) = Inr (Some 1234)"
proof -
  have t: "strip_refs (py_str ascii_runtime (Str (lit ''in 12345''))) = lit ''in 12345''"
    by (simp add: py_str_def strip_refs_def strip_def dagger_def isspace_def lit_def)
  have a: "four_digits_at ascii_runtime (lit ''in 12345'') 3"
    by (simp add: four_digits_at_def isdecimal_def decimal_def isdigit09_def lit_def)
  have b: "\<not> four_digits_at ascii_runtime (lit ''in 12345'') j" if "j < 3" for j
  proof -
    from that consider "j = 0" | "j = 1" | "j = 2" by arith
    then show ?thesis
      by cases
        (simp_all add: four_digits_at_def isdecimal_def decimal_def isdigit09_def lit_def)
  qed
  have c: "year_value ascii_runtime (take 4 (drop 3 (lit ''in 12345''))) = 1234"
    by (simp add: year_value_def decimal_def isdigit09_def lit_def)
  have ex: "(\<exists>i. four_digits_at ascii_runtime (lit ''in 12345'') i) = True"
    using a by blast
  have "\<exists>i. four_digits_at ascii_runtime (lit ''in 12345'') i \<and>
          (\<forall>j<i. \<not> four_digits_at ascii_runtime (lit ''in 12345'') j) \<and>
          Some 1234 = Some (year_value ascii_runtime (take 4 (drop i (lit ''in 12345''))))"
    using a b c by (intro exI[of _ 3]) simp
  then have "extract_year ascii_runtime (Str (lit ''in 12345'')) = Inr (Some 1234)"
    using extract_year_first_four[of "Str (lit ''in 12345'')" ascii_runtime "Some 1234"]
    unfolding t ex by simp
  with a b[of 0] b[of 1] b[of 2] show ?thesis by simp
qed

text \<open>
  The text \<open>12345\<close> has one run of digits, of length five, so no run of exactly four
  digits; \<open>extract_year\<close> returns 1234.
\<close>

theorem extract_year_not_exact_run:
  "extract_year ascii_runtime (Str (lit ''12345''))
     \<noteq> Inr (exact_run_year ascii_runtime (year_text ascii_runtime (Str (lit ''12345''))))"
proof -
  have t: "year_text ascii_runtime (Str (lit ''12345'')) = lit ''12345''"
    by (simp add: refs_eval)
  have "digit_runs (isdecimal ascii_runtime) [] (lit ''12345'') = [lit ''12345'']"
    by (simp add: year_eval)
  then have "exact_run_year ascii_runtime (lit ''12345'') = None"
    by (simp add: exact_run_year_def lit_def)
  with t year_ex3[of ascii_runtime] show ?thesis by simp
qed

section \<open>Totality of the helpers\<close>

lemma match_whole_numeral: "match_whole s = Some g \<Longrightarrow> numeral g"
proof -
  assume "match_whole s = Some g"
  then have "g = number_prefix s" "number_prefix s \<noteq> []"
    by (auto simp: match_whole_def Let_def split: if_splits)
  then show ?thesis using number_prefix_numeral[of s] by simp
qed

lemma search_year_int: "re_search (match_year R) t = Some g \<Longrightarrow> \<exists>y. py_int R g = Inr y"
proof -
  assume "re_search (match_year R) t = Some g"
  then obtain i where "match_year R (drop i t) = Some g"
    unfolding re_search_Some by blast
  then show ?thesis by (rule py_int_year)
qed

lemma remove_bracket_refs_Str: "remove_bracket_refs R (Str s) = Str (strip_refs s)"
  by (simp add: remove_bracket_refs_def py_str_def)

text \<open>
  C9. On a missing value \<open>remove_bracket_refs\<close> returns the value and \<open>parse_viewers\<close> and
  \<open>extract_year\<close> return absent. On a string \<open>remove_bracket_refs\<close> returns a string, and
  \<open>extract_year\<close>, the one of the three that converts outside a \<open>try\<close>, returns normally
  on every cell. No conversion raises: whatever one of the three viewers patterns
  captures is a numeral that \<open>float\<close> accepts, so the \<open>except\<close> branches of
  \<open>parse_viewers\<close> are never taken, and whatever the year pattern captures is a string
  of decimal digits that \<open>int\<close> accepts.
\<close>

theorem helpers_total:
  "remove_bracket_refs R Missing = Missing \<and>
   parse_viewers R Missing = None \<and>
   extract_year R Missing = Inr None \<and>
   remove_bracket_refs R (Str s) = Str (strip_refs s) \<and>
   (\<exists>y. extract_year R v = Inr y) \<and>
   (re_search match_million t1 = Some g1 \<longrightarrow> (\<exists>x. py_float g1 = Inr x)) \<and>
   (re_search match_digits4 t2 = Some g2 \<longrightarrow> (\<exists>x. py_float g2 = Inr x)) \<and>
   (match_whole t3 = Some g3 \<longrightarrow> (\<exists>x. py_float g3 = Inr x)) \<and>
   (re_search (match_year R) t4 = Some g4 \<longrightarrow> (\<exists>y. py_int R g4 = Inr y))"
proof -
  have a: "remove_bracket_refs R Missing = Missing"
    by (simp add: remove_bracket_refs_def)
  have b: "parse_viewers R Missing = None"
    by (simp add: parse_viewers_def)
  have c: "extract_year R Missing = Inr None"
    by (simp add: extract_year_def)
  have d: "\<exists>x. py_float g = Inr x" if "numeral g" for g
    using py_float_numeral[OF that] by blast
  have e: "re_search match_million t1 = Some g1 \<longrightarrow> (\<exists>x. py_float g1 = Inr x)"
    using search_million_numeral[of t1 g1] d by blast
  have f: "re_search match_digits4 t2 = Some g2 \<longrightarrow> (\<exists>x. py_float g2 = Inr x)"
    using search_digits4_numeral[of t2 g2] d by blast
  have g: "match_whole t3 = Some g3 \<longrightarrow> (\<exists>x. py_float g3 = Inr x)"
    using match_whole_numeral[of t3 g3] d by blast
  have h: "re_search (match_year R) t4 = Some g4 \<longrightarrow> (\<exists>y. py_int R g4 = Inr y)"
    using search_year_int[of R t4 g4] by blast
  from a b c remove_bracket_refs_Str[of R s] extract_year_total[of R v] e f g h
  show ?thesis by blast
qed

theorem helpers_total_witness:
  "re_search match_million (lit ''20.1 million'') = Some (lit ''20.1'') \<and>
   re_search match_digits4 (lit ''1234567'') = Some (lit ''1234567'') \<and>
   match_whole (lit ''45'') = Some (lit ''45'') \<and>
   re_search (match_year ascii_runtime) (lit ''March 3, 2008'') = Some (lit ''2008'') \<and>
   (\<exists>x. py_float (lit ''20.1'') = Inr x) \<and>
   (\<exists>x. py_float (lit ''1234567'') = Inr x) \<and>
   (\<exists>x. py_float (lit ''45'') = Inr x) \<and>
   (\<exists>y. py_int ascii_runtime (lit ''2008'') = Inr y)"
proof -
  have m: "re_search match_million (lit ''20.1 million'') = Some (lit ''20.1'')"
    by (simp add: match_eval)
  have d: "re_search match_digits4 (lit ''1234567'') = Some (lit ''1234567'')"
    by (simp add: match_eval)
  have w: "match_whole (lit ''45'') = Some (lit ''45'')"
    by (simp add: match_eval)
  have y: "re_search (match_year ascii_runtime) (lit ''March 3, 2008'') = Some (lit ''2008'')"
    by (simp add: year_eval)
  from m d w y
    helpers_total[of ascii_runtime "[]" Missing "lit ''20.1 million''" "lit ''20.1''"
      "lit ''1234567''" "lit ''1234567''" "lit ''45''" "lit ''45''"
      "lit ''March 3, 2008''" "lit ''2008''"]
  show ?thesis by blast
qed

section \<open>Unification keeps every row\<close>

lemma unify_row_keys:
  "map fst (unify_row R r) = [lit ''title'', lit ''date'', lit ''viewers'', lit ''network'']"
  by (simp add: unify_row_def Let_def)

lemma unify_tables_rows:
  "dfs \<noteq> [] \<Longrightarrow>
   \<exists>out. unify_tables R dfs = Inr out \<and>
         rows out = map (unify_row R) (concat (map rows dfs)) \<and>
         length (rows out) = sum_list (map (\<lambda>df. length (rows df)) dfs)"
  by (simp add: unify_tables_def DataFrame_def unify_loop_eq length_concat o_def)

lemma no_key:
  "map_of [(lit ''rank'', lit ''rank'')] (lit ''show'') = None"
  "map_of [(lit ''rank'', lit ''rank'')] (lit ''programme'') = None"
  "map_of [(lit ''rank'', lit ''rank'')] (lit ''program'') = None"
  "map_of [(lit ''rank'', lit ''rank'')] (lit ''broadcast'') = None"
  "map_of [(lit ''rank'', lit ''rank'')] (lit ''episode'') = None"
  "map_of [(lit ''rank'', lit ''rank'')] (lit ''title'') = None"
  "map_of [(lit ''rank'', lit ''rank'')] (lit ''date'') = None"
  "map_of [(lit ''rank'', lit ''rank'')] (lit ''viewers'') = None"
  "map_of [(lit ''rank'', lit ''rank'')] (lit ''number of viewers'') = None"
  "map_of [(lit ''rank'', lit ''rank'')] (lit ''number of viewers (millions)'') = None"
  "map_of [(lit ''rank'', lit ''rank'')] (lit ''network'') = None"
  "map_of [(lit ''rank'', lit ''rank'')] (lit ''channel'') = None"
  by (simp_all add: lit_def)


lemma unify_row_junk:
  "unify_row R [(lit ''rank'', Num 1)] =
     [(lit ''title'', Missing), (lit ''date'', Missing), (lit ''viewers'', Missing),
      (lit ''network'', Missing)]"
proof -
  have d: "to_dict [(lit ''rank'', Num 1)] = [(lit ''rank'', Num 1)]"
    by (simp add: to_dict_def)
  have k: "lower_keys R [(lit ''rank'', Num 1)] = [(lit ''rank'', lit ''rank'')]"
    by (simp add: lower_keys_def to_dict_def py_lower_def lit_def)
  have f: "first_text [(lit ''rank'', Num 1)] = None"
    by (simp add: first_text_def is_text_def)
  show ?thesis
    unfolding unify_row_def Let_def d k f no_key
    by (simp add: py_or_def row_get_def)
qed


text \<open>
  C6. \<open>unify_tables\<close> raises exactly when the list of tables is empty. On every other
  list it returns a frame whose rows are the unified rows of all tables, one for each
  row, in the order of the tables and of the rows within each table, so their number is
  the sum of the row counts. A unified row always has the four fields; a row without
  any usable column yields the record with four missing fields, and it is kept.
\<close>

theorem unify_tables_records:
  "((\<exists>e. unify_tables R dfs = Inl e) \<longleftrightarrow> dfs = []) \<and>
   (dfs \<noteq> [] \<longrightarrow>
      (\<exists>out. unify_tables R dfs = Inr out \<and>
             rows out = map (unify_row R) (concat (map rows dfs)) \<and>
             length (rows out) = sum_list (map (\<lambda>df. length (rows df)) dfs))) \<and>
   map fst (unify_row R r) = [lit ''title'', lit ''date'', lit ''viewers'', lit ''network''] \<and>
   unify_row R [(lit ''rank'', Num 1)] =
     [(lit ''title'', Missing), (lit ''date'', Missing), (lit ''viewers'', Missing),
      (lit ''network'', Missing)]"
proof -
  have a: "(\<exists>e. unify_tables R dfs = Inl e) \<longleftrightarrow> dfs = []"
    by (simp add: unify_tables_def)
  from a unify_tables_rows[of dfs R] unify_row_keys[of R r] unify_row_junk[of R]
  show ?thesis by blast
qed

theorem unify_tables_records_witness:
  "[\<lparr>columns = [lit ''rank''], rows = [[(lit ''rank'', Num 1)]]\<rparr>,
    \<lparr>columns = [lit ''rank''], rows = []\<rparr>] \<noteq> [] \<and>
   (\<exists>out. unify_tables ascii_runtime
        [\<lparr>columns = [lit ''rank''], rows = [[(lit ''rank'', Num 1)]]\<rparr>,
         \<lparr>columns = [lit ''rank''], rows = []\<rparr>] = Inr out \<and>
      rows out = [[(lit ''title'', Missing), (lit ''date'', Missing), (lit ''viewers'', Missing),
                   (lit ''network'', Missing)]])"
proof -
  let ?dfs = "[\<lparr>columns = [lit ''rank''], rows = [[(lit ''rank'', Num 1)]]\<rparr>,
               \<lparr>columns = [lit ''rank''], rows = []\<rparr>]"
  have ne: "?dfs \<noteq> []" by simp
  have c: "concat (map rows ?dfs) = [[(lit ''rank'', Num 1)]]" by simp
  from unify_tables_records[of ascii_runtime ?dfs "[]"] ne
  obtain out where o: "unify_tables ascii_runtime ?dfs = Inr out"
    "rows out = map (unify_row ascii_runtime) (concat (map rows ?dfs))"
    and j: "unify_row ascii_runtime [(lit ''rank'', Num 1)] =
     [(lit ''title'', Missing), (lit ''date'', Missing), (lit ''viewers'', Missing),
      (lit ''network'', Missing)]"
    by blast
  from o(2) have "rows out = [[(lit ''title'', Missing), (lit ''date'', Missing),
      (lit ''viewers'', Missing), (lit ''network'', Missing)]]"
    unfolding c using j by simp
  with o(1) ne show ?thesis by blast
qed

section \<open>The publisher counts successful sends\<close>

lemma outcomes_nth:
  "outcomes B hist msgs =
     map (\<lambda>i. \<not> send_raises B (hist @ take i msgs) (msgs ! i)) [0..<length msgs]"
proof (induction msgs arbitrary: hist)
  case Nil
  then show ?case by simp
next
  case (Cons m ms)
  have "[0..<length (m # ms)] = 0 # map Suc [0..<length ms]"
    by (simp add: upt_conv_Cons map_Suc_upt del: upt_Suc)
  then show ?case by (simp add: Cons.IH o_def del: upt_Suc)
qed

lemma count_outcomes:
  "length (filter id (outcomes B [] msgs)) =
     length (filter (\<lambda>i. \<not> send_raises B (take i msgs) (msgs ! i)) [0..<length msgs])"
  by (simp add: outcomes_nth filter_map o_def del: upt_Suc)

lemma produce_ok:
  assumes "connects B" "\<not> flush_raises B" "\<not> close_raises B"
    and "map_err (build_msg R) (rows df) = Inr msgs"
  shows "produce_to_kafka R B df =
     (\<lparr>attempted = msgs, flushed = True, closed = True\<rparr>,
      Inr (length (filter (\<lambda>i. \<not> send_raises B (take i msgs) (msgs ! i)) [0..<length msgs])))"
  using assms send_loop_eq[OF assms(4), of B "\<lparr>attempted = [], flushed = False, closed = False\<rparr>" 0]
  by (simp add: produce_to_kafka_def Let_def count_outcomes del: upt_Suc)


lemma map_err_length: "map_err f xs = Inr ys \<Longrightarrow> length ys = length xs"
  by (induction xs arbitrary: ys) (auto split: sum.splits)

text \<open>
  C7. When the producer connects, every message can be built and neither \<open>flush\<close> nor
  \<open>close\<close> raises, the publisher hands every record of the frame to \<open>send\<close>, in order,
  whatever the earlier sends did, and reports the number of sends that did not raise:
  the number of positions \<open>i\<close> at which \<open>send\<close>, called after the messages before
  \<open>i\<close>, returns.
\<close>

theorem send_failures_isolated:
  "connects B \<and> \<not> flush_raises B \<and> \<not> close_raises B \<and>
   map_err (build_msg R) (rows df) = Inr msgs \<longrightarrow>
   produce_to_kafka R B df =
     (\<lparr>attempted = msgs, flushed = True, closed = True\<rparr>,
      Inr (length (filter (\<lambda>i. \<not> send_raises B (take i msgs) (msgs ! i))
             [0..<length msgs]))) \<and>
   length msgs = length (rows df)"
  using produce_ok[of B R df msgs] map_err_length[of "build_msg R" "rows df" msgs]
  by blast

theorem send_failures_isolated_witness:
  "map_err (build_msg ascii_runtime)
      [[(lit ''year'', Num 2001), (lit ''viewers_millions'', Missing)],
       [(lit ''year'', Num 2002), (lit ''viewers_millions'', Missing)],
       [(lit ''year'', Num 2003), (lit ''viewers_millions'', Missing)]] =
    Inr (map (\<lambda>y. [(lit ''title'', Missing), (lit ''title_clean'', Missing),
                    (lit ''date'', Missing), (lit ''year'', Num y),
                    (lit ''viewers_millions'', Missing), (lit ''network'', Missing)])
          [2001, 2002, 2003]) \<and>
   snd (produce_to_kafka ascii_runtime
      \<lparr>connects = True, send_raises = (\<lambda>hist m. length hist = 1),
       flush_raises = False, close_raises = False\<rparr>
      \<lparr>columns = [lit ''year'', lit ''viewers_millions''],
       rows = [[(lit ''year'', Num 2001), (lit ''viewers_millions'', Missing)],
               [(lit ''year'', Num 2002), (lit ''viewers_millions'', Missing)],
               [(lit ''year'', Num 2003), (lit ''viewers_millions'', Missing)]]\<rparr>) = Inr 2 \<and>
   map (\<lambda>m. item m (lit ''year''))
     (attempted (fst (produce_to_kafka ascii_runtime
      \<lparr>connects = True, send_raises = (\<lambda>hist m. length hist = 1),
       flush_raises = False, close_raises = False\<rparr>
      \<lparr>columns = [lit ''year'', lit ''viewers_millions''],
       rows = [[(lit ''year'', Num 2001), (lit ''viewers_millions'', Missing)],
               [(lit ''year'', Num 2002), (lit ''viewers_millions'', Missing)],
               [(lit ''year'', Num 2003), (lit ''viewers_millions'', Missing)]]\<rparr>)))
     = [Num 2001, Num 2002, Num 2003]"
proof -
  let ?B = "\<lparr>connects = True, send_raises = (\<lambda>hist m. length hist = 1),
       flush_raises = False, close_raises = False\<rparr> :: broker"
  let ?rs = "[[(lit ''year'', Num 2001), (lit ''viewers_millions'', Missing)],
       [(lit ''year'', Num 2002), (lit ''viewers_millions'', Missing)],
       [(lit ''year'', Num 2003), (lit ''viewers_millions'', Missing)]]"
  let ?df = "\<lparr>columns = [lit ''year'', lit ''viewers_millions''], rows = ?rs\<rparr>"
  let ?msg = "\<lambda>y. [(lit ''title'', Missing), (lit ''title_clean'', Missing),
                    (lit ''date'', Missing), (lit ''year'', Num y),
                    (lit ''viewers_millions'', Missing), (lit ''network'', Missing)]"
  have b: "build_msg ascii_runtime [(lit ''year'', Num y), (lit ''viewers_millions'', Missing)]
      = Inr (?msg y)" for y
    by (simp add: build_msg_def row_item_def item_def to_int_def lit_def)
  have m: "map_err (build_msg ascii_runtime) ?rs = Inr (map ?msg [2001, 2002, 2003])"
    by (simp add: b)
  have u: "[0..<length (map ?msg [2001, 2002, 2003])] = [0, 1, 2]"
    by (simp add: upt_rec)
  have i: "item (?msg y) (lit ''year'') = Num y" for y
    by (simp add: item_def lit_def)
  have "produce_to_kafka ascii_runtime ?B ?df =
     (\<lparr>attempted = map ?msg [2001, 2002, 2003], flushed = True, closed = True\<rparr>, Inr 2)"
    using send_failures_isolated[of ?B ascii_runtime ?df "map ?msg [2001, 2002, 2003]"] m
    unfolding u by simp
  then show ?thesis using m i by simp
qed

section \<open>Cleaning row by row\<close>

lemma set_col_rows:
  "set_col c (map h rs) \<lparr>columns = C, rows = map f rs\<rparr> =
     \<lparr>columns = add_column c C, rows = map (\<lambda>r. dict_set c (h r) (f r)) rs\<rparr>"
proof -
  have "zip (map f rs) (map h rs) = map (\<lambda>r. (f r, h r)) rs"
    by (induction rs) simp_all
  then show ?thesis by (simp add: set_col_def o_def)
qed

lemma apply_refs_rows:
  "c \<in> set C \<Longrightarrow>
   apply_refs R \<lparr>columns = C, rows = map f rs\<rparr> c =
     \<lparr>columns = C,
      rows = map (\<lambda>r. dict_set c (remove_bracket_refs R (item (f r) c)) (f r)) rs\<rparr>"
  using set_col_rows[of c "\<lambda>r. remove_bracket_refs R (item (f r) c)" rs C f]
  by (simp add: apply_refs_def add_column_def o_def)

lemma map_err_extract_year: "map_err (extract_year R) vs = Inr (map (year_of R) vs)"
proof (induction vs)
  case Nil
  then show ?case by simp
next
  case (Cons v vs)
  from extract_year_total[of R v] obtain y where "extract_year R v = Inr y" by blast
  then show ?case by (simp add: Cons.IH year_of_def)
qed


lemma field_mem:
  "lit ''title'' \<in> set normalized_fields"
  "lit ''date'' \<in> set normalized_fields"
  "lit ''viewers'' \<in> set normalized_fields"
  "lit ''network'' \<in> set normalized_fields"
  by (simp_all add: normalized_fields_def)

lemma field_cols:
  "add_column (lit ''title'') normalized_fields = normalized_fields"
  "add_column (lit ''title_clean'') normalized_fields = normalized_fields @ [lit ''title_clean'']"
  "add_column (lit ''viewers_millions'') (normalized_fields @ [lit ''title_clean'']) =
     normalized_fields @ [lit ''title_clean'', lit ''viewers_millions'']"
  "add_column (lit ''year'') (normalized_fields @ [lit ''title_clean'', lit ''viewers_millions''])
     = cleaned_fields"
  by (simp_all add: add_column_def normalized_fields_def cleaned_fields_def lit_def)

lemma field_mem_later:
  "lit ''viewers'' \<in> set (normalized_fields @ [lit ''title_clean''])"
  "lit ''date'' \<in> set (normalized_fields @ [lit ''title_clean'', lit ''viewers_millions''])"
  "lit ''title'' \<in> set cleaned_fields"
  "lit ''viewers_millions'' \<in> set cleaned_fields"
  by (simp_all add: normalized_fields_def cleaned_fields_def)

lemma item_dict_set:
  "item (dict_set c v r) c' = (if c' = c then v else item r c')"
  by (induction r) (auto simp: item_def)

lemma clean_df_frame:
  "clean_df R \<lparr>columns = normalized_fields, rows = rs\<rparr> =
     Inr \<lparr>columns = cleaned_fields,
          rows = filter (\<lambda>r. (item r (lit ''title'') \<noteq> Str [] \<and> item r (lit ''title'') \<noteq> Missing)
                            \<and> item r (lit ''viewers_millions'') \<noteq> Missing)
                   (map (clean_steps R) rs)\<rparr>"
proof -
  define g1 where "g1 = (\<lambda>r. dict_set (lit ''title'') (remove_bracket_refs R (item r (lit ''title''))) r)"
  define g2 where "g2 = (\<lambda>r. dict_set (lit ''date'') (remove_bracket_refs R (item (g1 r) (lit ''date''))) (g1 r))"
  define g3 where "g3 = (\<lambda>r. dict_set (lit ''viewers'') (remove_bracket_refs R (item (g2 r) (lit ''viewers''))) (g2 r))"
  define g4 where "g4 = (\<lambda>r. dict_set (lit ''network'') (remove_bracket_refs R (item (g3 r) (lit ''network''))) (g3 r))"
  define g5 where "g5 = (\<lambda>r. dict_set (lit ''title'') (normalize_title R (item (g4 r) (lit ''title''))) (g4 r))"
  define g6 where "g6 = (\<lambda>r. dict_set (lit ''title_clean'')
      (Str (py_lower R (py_str R (normalize_title R (item (g4 r) (lit ''title'')))))) (g5 r))"
  define g7 where "g7 = (\<lambda>r. dict_set (lit ''viewers_millions'')
      (float_cell (parse_viewers R (item (g6 r) (lit ''viewers'')))) (g6 r))"
  define g8 where "g8 = (\<lambda>r. dict_set (lit ''year'')
      (int_cell (year_of R (item (g7 r) (lit ''date'')))) (g7 r))"
  have s1: "apply_refs R \<lparr>columns = normalized_fields, rows = rs\<rparr> (lit ''title'') =
      \<lparr>columns = normalized_fields, rows = map g1 rs\<rparr>"
    using apply_refs_rows[OF field_mem(1), of R "\<lambda>r. r" rs] by (simp add: g1_def)
  have s2: "apply_refs R \<lparr>columns = normalized_fields, rows = map g1 rs\<rparr> (lit ''date'') =
      \<lparr>columns = normalized_fields, rows = map g2 rs\<rparr>"
    using apply_refs_rows[OF field_mem(2), of R g1 rs] by (simp add: g2_def)
  have s3: "apply_refs R \<lparr>columns = normalized_fields, rows = map g2 rs\<rparr> (lit ''viewers'') =
      \<lparr>columns = normalized_fields, rows = map g3 rs\<rparr>"
    using apply_refs_rows[OF field_mem(3), of R g2 rs] by (simp add: g3_def)
  have s4: "apply_refs R \<lparr>columns = normalized_fields, rows = map g3 rs\<rparr> (lit ''network'') =
      \<lparr>columns = normalized_fields, rows = map g4 rs\<rparr>"
    using apply_refs_rows[OF field_mem(4), of R g3 rs] by (simp add: g4_def)
  have df1: "foldl (apply_refs R) \<lparr>columns = normalized_fields, rows = rs\<rparr>
       [lit ''title'', lit ''date'', lit ''viewers'', lit ''network''] =
      \<lparr>columns = normalized_fields, rows = map g4 rs\<rparr>"
    by (simp add: s1 s2 s3 s4)
  have s5: "set_col (lit ''title'') (map (\<lambda>r. normalize_title R (item (g4 r) (lit ''title''))) rs)
        \<lparr>columns = normalized_fields, rows = map g4 rs\<rparr> =
      \<lparr>columns = normalized_fields, rows = map g5 rs\<rparr>"
    unfolding set_col_rows field_cols g5_def ..
  have s6: "set_col (lit ''title_clean'')
        (map (\<lambda>r. Str (py_lower R (py_str R (normalize_title R (item (g4 r) (lit ''title'')))))) rs)
        \<lparr>columns = normalized_fields, rows = map g5 rs\<rparr> =
      \<lparr>columns = normalized_fields @ [lit ''title_clean''], rows = map g6 rs\<rparr>"
    unfolding set_col_rows field_cols g6_def ..
  have s7: "set_col (lit ''viewers_millions'')
        (map (\<lambda>r. float_cell (parse_viewers R (item (g6 r) (lit ''viewers'')))) rs)
        \<lparr>columns = normalized_fields @ [lit ''title_clean''], rows = map g6 rs\<rparr> =
      \<lparr>columns = normalized_fields @ [lit ''title_clean'', lit ''viewers_millions''],
       rows = map g7 rs\<rparr>"
    unfolding set_col_rows field_cols g7_def ..
  have s8: "set_col (lit ''year'')
        (map (\<lambda>r. int_cell (year_of R (item (g7 r) (lit ''date'')))) rs)
        \<lparr>columns = normalized_fields @ [lit ''title_clean'', lit ''viewers_millions''],
         rows = map g7 rs\<rparr> =
      \<lparr>columns = cleaned_fields, rows = map g8 rs\<rparr>"
    unfolding set_col_rows field_cols g8_def ..
  have g: "g8 = clean_steps R"
    by (rule ext) (simp add: g8_def g7_def g6_def g5_def g4_def g3_def g2_def g1_def
        clean_steps_def Let_def)
  show ?thesis
    unfolding clean_df_def df1
    by (simp add: Let_def field_mem field_mem_later get_col_def o_def
        s5 s6 s7 s8 map_err_extract_year g)
qed


lemma add_columns_known:
  "set ks \<subseteq> set cs \<Longrightarrow> foldl (\<lambda>cs k. add_column k cs) cs ks = cs"
  by (induction ks) (auto simp: add_column_def)

lemma add_columns_fields:
  "foldl (\<lambda>cs k. add_column k cs) [] normalized_fields = normalized_fields"
  by (simp add: normalized_fields_def add_column_def lit_def)

lemma DataFrame_normalized:
  assumes "\<forall>r\<in>set rs. map fst r = normalized_fields" and "rs \<noteq> []"
  shows "DataFrame rs = \<lparr>columns = normalized_fields, rows = rs\<rparr>"
proof -
  from assms(2) obtain r rs' where rs: "rs = r # rs'" by (cases rs) auto
  with assms(1) have r: "map fst r = normalized_fields" by simp
  have "set (concat (map (map fst) rs')) \<subseteq> set normalized_fields"
    using assms(1) rs by auto
  then have "foldl (\<lambda>cs k. add_column k cs) normalized_fields (concat (map (map fst) rs'))
      = normalized_fields"
    by (rule add_columns_known)
  then show ?thesis
    by (simp add: DataFrame_def rs r add_columns_fields)
qed

lemma normalized_shape:
  assumes "map fst r = normalized_fields"
  shows "r = [(lit ''title'', item r (lit ''title'')), (lit ''date'', item r (lit ''date'')),
              (lit ''viewers'', item r (lit ''viewers'')),
              (lit ''network'', item r (lit ''network''))]"
proof -
  from assms obtain a b c d where
    r: "r = [(lit ''title'', a), (lit ''date'', b), (lit ''viewers'', c), (lit ''network'', d)]"
    by (auto simp: normalized_fields_def map_eq_Cons_conv)
  show ?thesis by (subst (1) r, simp add: r item_def lit_def)
qed

lemma clean_steps_shape:
  "clean_steps R [(lit ''title'', a), (lit ''date'', b), (lit ''viewers'', c), (lit ''network'', d)]
     = clean_row R [(lit ''title'', a), (lit ''date'', b), (lit ''viewers'', c), (lit ''network'', d)]"
  by (simp add: clean_steps_def clean_row_def Let_def item_def lit_def)

lemma clean_steps_row:
  assumes "map fst r = normalized_fields"
  shows "clean_steps R r = clean_row R r"
  using clean_steps_shape[of R "item r (lit ''title'')" "item r (lit ''date'')"
      "item r (lit ''viewers'')" "item r (lit ''network'')"]
    normalized_shape[OF assms] by simp


lemma clean_row_items:
  "item (clean_row R r) (lit ''title'') =
     normalize_title R (remove_bracket_refs R (item r (lit ''title'')))"
  "item (clean_row R r) (lit ''viewers_millions'') =
     float_cell (parse_viewers R (remove_bracket_refs R (item r (lit ''viewers''))))"
  "item (clean_row R r) (lit ''year'') =
     int_cell (year_of R (remove_bracket_refs R (item r (lit ''date''))))"
  by (simp_all add: clean_row_def Let_def item_def lit_def)

lemma clean_row_title: "item (clean_row R r) (lit ''title'') \<noteq> Missing"
  by (simp add: clean_row_items normalize_title_def)

lemma clean_df_rows:
  assumes "\<forall>r\<in>set rs. map fst r = normalized_fields" and "rs \<noteq> []"
  shows "clean_df R (DataFrame rs) =
     Inr \<lparr>columns = cleaned_fields, rows = filter survives (map (clean_row R) rs)\<rparr>"
proof -
  have m: "map (clean_steps R) rs = map (clean_row R) rs"
    using assms(1) by (simp add: clean_steps_row)
  have f: "filter (\<lambda>r. (item r (lit ''title'') \<noteq> Str [] \<and> item r (lit ''title'') \<noteq> Missing)
                            \<and> item r (lit ''viewers_millions'') \<noteq> Missing)
             (map (clean_row R) rs) = filter survives (map (clean_row R) rs)"
    by (rule filter_cong) (auto simp: survives_def clean_row_title)
  show ?thesis
    unfolding DataFrame_normalized[OF assms] clean_df_frame m f ..
qed

lemma clean_df_empty: "clean_df R (DataFrame []) = Inl (KeyError (lit ''viewers''))"
  by (simp add: clean_df_def DataFrame_def apply_refs_def get_col_def Let_def)

lemma survives_fields:
  assumes "c \<in> set (filter survives (map (clean_row R) rs))"
  shows "(\<exists>t. item c (lit ''title'') = Str t \<and> t \<noteq> []) \<and>
         (\<exists>x. item c (lit ''viewers_millions'') = Flt x \<and> nonneg x)"
proof -
  from assms obtain r where c: "c = clean_row R r" and s: "survives c" by auto
  obtain t where t: "item c (lit ''title'') = Str t"
    unfolding c by (simp add: clean_row_items normalize_title_def)
  with s have "t \<noteq> []" by (auto simp: survives_def)
  moreover from s have "item c (lit ''viewers_millions'') \<noteq> Missing"
    by (simp add: survives_def)
  then obtain x where x: "parse_viewers R (remove_bracket_refs R (item r (lit ''viewers''))) = Some x"
    "item c (lit ''viewers_millions'') = Flt x"
    unfolding c clean_row_items by (auto simp: float_cell_def split: option.splits)
  from x(1) have "nonneg x" by (rule parse_viewers_nonneg)
  ultimately show ?thesis using t x(2) by blast
qed


lemma example_fields:
  "map fst [(lit ''title'', Str (lit ''Fox'')), (lit ''date'', Str (lit ''2008'')),
            (lit ''viewers'', Str (lit ''45'')), (lit ''network'', Missing)] = normalized_fields"
  "map fst [(lit ''title'', Str (lit ''Event X'')), (lit ''date'', Str (lit ''1999'')),
            (lit ''viewers'', Str (lit ''invalid'')), (lit ''network'', Missing)] = normalized_fields"
  by (simp_all add: normalized_fields_def)

lemma example_cells:
  "item [(lit ''title'', Str (lit ''Fox'')), (lit ''date'', Str (lit ''2008'')),
         (lit ''viewers'', Str (lit ''45'')), (lit ''network'', Missing)] (lit ''title'')
     = Str (lit ''Fox'')"
  "item [(lit ''title'', Str (lit ''Fox'')), (lit ''date'', Str (lit ''2008'')),
         (lit ''viewers'', Str (lit ''45'')), (lit ''network'', Missing)] (lit ''viewers'')
     = Str (lit ''45'')"
  "item [(lit ''title'', Str (lit ''Event X'')), (lit ''date'', Str (lit ''1999'')),
         (lit ''viewers'', Str (lit ''invalid'')), (lit ''network'', Missing)] (lit ''title'')
     = Str (lit ''Event X'')"
  "item [(lit ''title'', Str (lit ''Event X'')), (lit ''date'', Str (lit ''1999'')),
         (lit ''viewers'', Str (lit ''invalid'')), (lit ''network'', Missing)] (lit ''viewers'')
     = Str (lit ''invalid'')"
  by (simp_all add: item_def lit_def)

lemma example_refs:
  "remove_bracket_refs R (Str (lit ''Fox'')) = Str (lit ''Fox'')"
  "remove_bracket_refs R (Str (lit ''45'')) = Str (lit ''45'')"
  "remove_bracket_refs R (Str (lit ''Event X'')) = Str (lit ''Event X'')"
  "remove_bracket_refs R (Str (lit ''invalid'')) = Str (lit ''invalid'')"
  by (simp_all add: remove_bracket_refs_def py_str_def strip_refs_def strip_def dagger_def
      isspace_def lit_def)

lemma example_titles:
  "normalize_title R (Str (lit ''Fox'')) = Str (lit ''Fox'')"
  "normalize_title R (Str (lit ''Event X'')) = Str (lit ''Event X'')"
  by (simp_all add: normalize_title_def py_str_def strip_def isspace_def lit_def)

lemma example_survivors:
  "filter survives (map (clean_row R)
     [[(lit ''title'', Str (lit ''Fox'')), (lit ''date'', Str (lit ''2008'')),
       (lit ''viewers'', Str (lit ''45'')), (lit ''network'', Missing)],
      [(lit ''title'', Str (lit ''Event X'')), (lit ''date'', Str (lit ''1999'')),
       (lit ''viewers'', Str (lit ''invalid'')), (lit ''network'', Missing)]]) =
   [clean_row R [(lit ''title'', Str (lit ''Fox'')), (lit ''date'', Str (lit ''2008'')),
       (lit ''viewers'', Str (lit ''45'')), (lit ''network'', Missing)]]"
proof -
  have a: "survives (clean_row R [(lit ''title'', Str (lit ''Fox'')), (lit ''date'', Str (lit ''2008'')),
       (lit ''viewers'', Str (lit ''45'')), (lit ''network'', Missing)])"
    unfolding survives_def clean_row_items example_cells example_refs example_titles ex_small
    by (simp add: float_cell_def lit_def)
  have b: "\<not> survives (clean_row R [(lit ''title'', Str (lit ''Event X'')),
       (lit ''date'', Str (lit ''1999'')), (lit ''viewers'', Str (lit ''invalid'')),
       (lit ''network'', Missing)])"
    unfolding survives_def clean_row_items example_cells example_refs example_titles ex_garbage
    by (simp add: float_cell_def)
  show ?thesis using a b by simp
qed

text \<open>
  C2. Let \<open>rs\<close> be normalized records: rows with the four fields \<open>title\<close>, \<open>date\<close>,
  \<open>viewers\<close>, \<open>network\<close>. If there is at least one, \<open>clean_df\<close> returns the cleaned
  records of exactly those rows whose normalized title is not empty and whose
  \<open>viewers_millions\<close> is present, in the order of the input: the output is the input,
  cleaned row by row and filtered by that condition. So every record of the output has a
  non-empty title and a \<open>viewers_millions\<close>. On the empty sequence the frame has no
  columns and \<open>clean_df\<close> raises \<open>KeyError\<close>, so there is no output.
\<close>

theorem clean_df_filter:
  "(\<forall>r\<in>set rs. map fst r = normalized_fields) \<longrightarrow>
   (rs = [] \<longrightarrow> clean_df R (DataFrame rs) = Inl (KeyError (lit ''viewers''))) \<and>
   (rs \<noteq> [] \<longrightarrow>
      (\<exists>out. clean_df R (DataFrame rs) = Inr out \<and>
         rows out = filter survives (map (clean_row R) rs) \<and>
         (\<forall>c\<in>set (rows out).
            (\<exists>t. item c (lit ''title'') = Str t \<and> t \<noteq> []) \<and>
            (\<exists>x. item c (lit ''viewers_millions'') = Flt x))))"
proof (intro impI conjI)
  assume "rs = []"
  then show "clean_df R (DataFrame rs) = Inl (KeyError (lit ''viewers''))"
    by (simp add: clean_df_empty)
next
  assume n: "\<forall>r\<in>set rs. map fst r = normalized_fields" and ne: "rs \<noteq> []"
  let ?out = "\<lparr>columns = cleaned_fields, rows = filter survives (map (clean_row R) rs)\<rparr>"
  have "clean_df R (DataFrame rs) = Inr ?out" using n ne by (rule clean_df_rows)
  moreover have "rows ?out = filter survives (map (clean_row R) rs)" by simp
  moreover have "\<forall>c\<in>set (rows ?out).
            (\<exists>t. item c (lit ''title'') = Str t \<and> t \<noteq> []) \<and>
            (\<exists>x. item c (lit ''viewers_millions'') = Flt x)"
    using survives_fields[of _ R rs] by fastforce
  ultimately show "\<exists>out. clean_df R (DataFrame rs) = Inr out \<and>
         rows out = filter survives (map (clean_row R) rs) \<and>
         (\<forall>c\<in>set (rows out).
            (\<exists>t. item c (lit ''title'') = Str t \<and> t \<noteq> []) \<and>
            (\<exists>x. item c (lit ''viewers_millions'') = Flt x))"
    by blast
qed

theorem clean_df_filter_witness:
  "map fst [(lit ''title'', Str (lit ''Fox'')), (lit ''date'', Str (lit ''2008'')),
            (lit ''viewers'', Str (lit ''45'')), (lit ''network'', Missing)] = normalized_fields \<and>
   map fst [(lit ''title'', Str (lit ''Event X'')), (lit ''date'', Str (lit ''1999'')),
            (lit ''viewers'', Str (lit ''invalid'')), (lit ''network'', Missing)]
     = normalized_fields \<and>
   (\<exists>out. clean_df ascii_runtime (DataFrame
        [[(lit ''title'', Str (lit ''Fox'')), (lit ''date'', Str (lit ''2008'')),
          (lit ''viewers'', Str (lit ''45'')), (lit ''network'', Missing)],
         [(lit ''title'', Str (lit ''Event X'')), (lit ''date'', Str (lit ''1999'')),
          (lit ''viewers'', Str (lit ''invalid'')), (lit ''network'', Missing)]]) = Inr out \<and>
      map (\<lambda>c. item c (lit ''title'')) (rows out) = [Str (lit ''Fox'')])"
proof -
  let ?rs = "[[(lit ''title'', Str (lit ''Fox'')), (lit ''date'', Str (lit ''2008'')),
                (lit ''viewers'', Str (lit ''45'')), (lit ''network'', Missing)],
               [(lit ''title'', Str (lit ''Event X'')), (lit ''date'', Str (lit ''1999'')),
                (lit ''viewers'', Str (lit ''invalid'')), (lit ''network'', Missing)]]"
  have n: "\<forall>r\<in>set ?rs. map fst r = normalized_fields"
    using example_fields by simp
  have ne: "?rs \<noteq> []" by simp
  from clean_df_filter[of ?rs ascii_runtime] n ne
  obtain out where o: "clean_df ascii_runtime (DataFrame ?rs) = Inr out"
    "rows out = filter survives (map (clean_row ascii_runtime) ?rs)"
    by blast
  have t: "map (\<lambda>c. item c (lit ''title'')) (rows out) = [Str (lit ''Fox'')]"
    unfolding o(2) example_survivors
    by (simp add: clean_row_items example_cells example_refs example_titles)
  have "\<exists>out. clean_df ascii_runtime (DataFrame ?rs) = Inr out \<and>
      map (\<lambda>c. item c (lit ''title'')) (rows out) = [Str (lit ''Fox'')]"
    using o(1) t by (intro exI[of _ out] conjI)
  with example_fields show ?thesis by (intro conjI)
qed

section \<open>Viewers are never negative\<close>

lemma row_item_clean_row:
  "row_item (clean_row R r) (lit ''year'') =
     Inr (int_cell (year_of R (remove_bracket_refs R (item r (lit ''date'')))))"
  "row_item (clean_row R r) (lit ''viewers_millions'') =
     Inr (float_cell (parse_viewers R (remove_bracket_refs R (item r (lit ''viewers'')))))"
  by (simp_all add: row_item_def clean_row_def Let_def lit_def)

lemma msg_viewers:
  "item [(lit ''title'', a), (lit ''title_clean'', b), (lit ''date'', c), (lit ''year'', d),
         (lit ''viewers_millions'', e), (lit ''network'', f)] (lit ''viewers_millions'') = e"
  by (simp add: item_def lit_def)

lemma to_int_cell: "(if int_cell y \<noteq> Missing then to_int R (int_cell y) else Inr Missing)
    = Inr (int_cell y)"
  by (cases y) (simp_all add: int_cell_def to_int_def)

lemma build_msg_clean_row:
  assumes "item (clean_row R r) (lit ''viewers_millions'') = Flt y"
  shows "\<exists>msg. build_msg R (clean_row R r) = Inr msg \<and>
               item msg (lit ''viewers_millions'') = Flt y"
proof -
  from assms have f: "float_cell (parse_viewers R (remove_bracket_refs R (item r (lit ''viewers''))))
      = Flt y"
    by (simp add: clean_row_items)
  have "build_msg R (clean_row R r) =
      Inr [(lit ''title'', item (clean_row R r) (lit ''title'')),
           (lit ''title_clean'', item (clean_row R r) (lit ''title_clean'')),
           (lit ''date'', item (clean_row R r) (lit ''date'')),
           (lit ''year'', int_cell (year_of R (remove_bracket_refs R (item r (lit ''date''))))),
           (lit ''viewers_millions'', Flt y),
           (lit ''network'', item (clean_row R r) (lit ''network''))]"
    unfolding build_msg_def row_item_clean_row f
    by (simp add: to_int_cell to_float_def)
  then show ?thesis using msg_viewers by simp
qed

lemma cleaned_viewers:
  assumes "\<forall>r\<in>set rs. map fst r = normalized_fields"
    and "clean_df R (DataFrame rs) = Inr out" and "c \<in> set (rows out)"
  shows "\<exists>y. item c (lit ''viewers_millions'') = Flt y \<and> nonneg y \<and>
           (\<exists>msg. build_msg R c = Inr msg \<and> item msg (lit ''viewers_millions'') = Flt y)"
proof -
  have ne: "rs \<noteq> []" using assms(2) by (auto simp: clean_df_empty)
  from clean_df_rows[OF assms(1) ne, of R] assms(2)
  have "rows out = filter survives (map (clean_row R) rs)" by auto
  with assms(3) have c: "c \<in> set (filter survives (map (clean_row R) rs))" by simp
  then obtain r where r: "c = clean_row R r" by auto
  from survives_fields[OF c] obtain y where
    y: "item c (lit ''viewers_millions'') = Flt y" "nonneg y" by blast
  from build_msg_clean_row[of R r y] y(1) r
  have "\<exists>msg. build_msg R c = Inr msg \<and> item msg (lit ''viewers_millions'') = Flt y"
    by simp
  with y show ?thesis by blast
qed

text \<open>
  C10. Whatever \<open>parse_viewers\<close> returns is not negative (infinity, which \<open>float\<close> makes
  of a numeral too large for a double, counts as positive). So in every record that
  \<open>clean_df\<close> produces from normalized records \<open>viewers_millions\<close> is a float that is not
  negative, the message of that record can be built, and it carries the same value.
\<close>

theorem viewers_millions_nonneg:
  "(parse_viewers R v = Some x \<longrightarrow> nonneg x) \<and>
   ((\<forall>r\<in>set rs. map fst r = normalized_fields) \<and>
    clean_df R (DataFrame rs) = Inr out \<and> c \<in> set (rows out) \<longrightarrow>
      (\<exists>y. item c (lit ''viewers_millions'') = Flt y \<and> nonneg y \<and>
           (\<exists>msg. build_msg R c = Inr msg \<and> item msg (lit ''viewers_millions'') = Flt y)))"
  using parse_viewers_nonneg[of R v x] cleaned_viewers[of rs R out c] by blast

theorem viewers_millions_nonneg_witness:
  "parse_viewers ascii_runtime (Str (lit ''45'')) = Some (Finite 45) \<and>
   nonneg (Finite 45) \<and>
   clean_df ascii_runtime (DataFrame
        [[(lit ''title'', Str (lit ''Fox'')), (lit ''date'', Str (lit ''2008'')),
          (lit ''viewers'', Str (lit ''45'')), (lit ''network'', Missing)],
         [(lit ''title'', Str (lit ''Event X'')), (lit ''date'', Str (lit ''1999'')),
          (lit ''viewers'', Str (lit ''invalid'')), (lit ''network'', Missing)]]) =
     Inr \<lparr>columns = cleaned_fields,
          rows = [clean_row ascii_runtime
            [(lit ''title'', Str (lit ''Fox'')), (lit ''date'', Str (lit ''2008'')),
             (lit ''viewers'', Str (lit ''45'')), (lit ''network'', Missing)]]\<rparr> \<and>
   (\<exists>y. item (clean_row ascii_runtime
            [(lit ''title'', Str (lit ''Fox'')), (lit ''date'', Str (lit ''2008'')),
             (lit ''viewers'', Str (lit ''45'')), (lit ''network'', Missing)])
          (lit ''viewers_millions'') = Flt y \<and> nonneg y)"
proof -
  let ?r1 = "[(lit ''title'', Str (lit ''Fox'')), (lit ''date'', Str (lit ''2008'')),
          (lit ''viewers'', Str (lit ''45'')), (lit ''network'', Missing)]"
  let ?rs = "[?r1,
         [(lit ''title'', Str (lit ''Event X'')), (lit ''date'', Str (lit ''1999'')),
          (lit ''viewers'', Str (lit ''invalid'')), (lit ''network'', Missing)]]"
  let ?out = "\<lparr>columns = cleaned_fields, rows = [clean_row ascii_runtime ?r1]\<rparr>"
  have n: "\<forall>r\<in>set ?rs. map fst r = normalized_fields"
    using example_fields by simp
  have p: "parse_viewers ascii_runtime (Str (lit ''45'')) = Some (Finite 45)"
    by (rule ex_small)
  have o: "clean_df ascii_runtime (DataFrame ?rs) = Inr ?out"
    using clean_df_rows[OF n, of ascii_runtime] unfolding example_survivors by simp
  have c: "clean_row ascii_runtime ?r1 \<in> set (rows ?out)" by simp
  from viewers_millions_nonneg[of ascii_runtime "Str (lit ''45'')" "Finite 45" ?rs ?out
      "clean_row ascii_runtime ?r1"] p n o c
  have "nonneg (Finite 45)"
    and "\<exists>y. item (clean_row ascii_runtime ?r1) (lit ''viewers_millions'') = Flt y \<and> nonneg y"
    by blast+
  with p o show ?thesis by blast
qed

section \<open>The sink file\<close>

lemma map_snd_enumerate_apply:
  "map (\<lambda>ir. f (snd ir)) (enumerate n xs) = map f xs"
  by (induction xs arbitrary: n) simp_all

lemma to_csv_no_index:
  "to_csv False df =
     \<lparr>csv_header = columns df, csv_lines = map (\<lambda>c. map (item c) (columns df)) (rows df)\<rparr>"
  using map_snd_enumerate_apply[of "\<lambda>c. map (item c) (columns df)" 0 "rows df"]
  by (simp add: to_csv_def)

lemma unified_normalized:
  "\<forall>r\<in>set (map (unify_row R) rs). map fst r = normalized_fields"
  by (simp add: unify_row_keys normalized_fields_def)

lemma main_sink_Inr:
  assumes "main_sink R parsed = Inr csv"
  shows "csv = \<lparr>csv_header = cleaned_fields,
                 csv_lines = map (\<lambda>c. map (item c) cleaned_fields)
                   (filter survives (map (clean_row R)
                      (map (unify_row R) (concat (map rows (extract_tables parsed))))))\<rparr>"
proof -
  let ?rs = "map (unify_row R) (concat (map rows (extract_tables parsed)))"
  from assms obtain combined cleaned where
    u: "unify_tables R (extract_tables parsed) = Inr combined"
    and c: "clean_df R combined = Inr cleaned"
    and t: "csv = to_csv False cleaned"
    by (auto simp: main_sink_def split: sum.splits)
  from u have cb: "combined = DataFrame ?rs"
    by (auto simp: unify_tables_def unify_loop_eq split: if_splits)
  have ne: "?rs \<noteq> []"
  proof
    assume "?rs = []"
    with c show False unfolding cb by (simp add: clean_df_empty)
  qed
  from clean_df_rows[OF unified_normalized ne, of R] c
  have "cleaned = \<lparr>columns = cleaned_fields, rows = filter survives (map (clean_row R) ?rs)\<rparr>"
    unfolding cb by simp
  then show ?thesis unfolding t to_csv_no_index by simp
qed

lemma cleaned_fields_plain:
  "source_index \<notin> set cleaned_fields" "[] \<notin> set cleaned_fields" "length cleaned_fields = 7"
  by (simp_all add: cleaned_fields_def source_index_def lit_def)


lemma extract_loop_columns:
  "\<forall>df\<in>set (extract_loop i parsed). source_index \<in> set (columns df)"
proof (induction parsed arbitrary: i)
  case Nil
  then show ?case by simp
next
  case (Cons t ts)
  then show ?case by (cases t) (auto simp: set_col_def add_column_def)
qed

lemma main_sink_value:
  assumes "concat (map rows (extract_tables parsed)) \<noteq> []"
  shows "main_sink R parsed = Inr \<lparr>csv_header = cleaned_fields,
                 csv_lines = map (\<lambda>c. map (item c) cleaned_fields)
                   (filter survives (map (clean_row R)
                      (map (unify_row R) (concat (map rows (extract_tables parsed))))))\<rparr>"
proof -
  let ?rs = "map (unify_row R) (concat (map rows (extract_tables parsed)))"
  from assms have e: "extract_tables parsed \<noteq> []" by auto
  then have u: "unify_tables R (extract_tables parsed) = Inr (DataFrame ?rs)"
    by (simp add: unify_tables_def unify_loop_eq)
  from assms have ne: "?rs \<noteq> []" by simp
  have cd: "clean_df R (DataFrame ?rs) =
      Inr \<lparr>columns = cleaned_fields, rows = filter survives (map (clean_row R) ?rs)\<rparr>"
    using unified_normalized ne by (rule clean_df_rows)
  have "main_sink R parsed =
      (case clean_df R (DataFrame ?rs) of
         Inl e \<Rightarrow> Inl e | Inr cleaned \<Rightarrow> Inr (to_csv False cleaned))"
    by (simp add: main_sink_def u)
  also have "\<dots> = Inr (to_csv False
      \<lparr>columns = cleaned_fields, rows = filter survives (map (clean_row R) ?rs)\<rparr>)"
    unfolding cd by simp
  finally show ?thesis unfolding to_csv_no_index by simp
qed

lemma sink_example_extract:
  "extract_tables [Some \<lparr>columns = [lit ''Show'', lit ''Viewers'', lit ''Date''],
       rows = [[(lit ''Show'', Str (lit ''Fox'')), (lit ''Viewers'', Str (lit ''45'')),
                (lit ''Date'', Str (lit ''2008''))]]\<rparr>] =
   [\<lparr>columns = [lit ''Show'', lit ''Viewers'', lit ''Date'', source_index],
     rows = [[(lit ''Show'', Str (lit ''Fox'')), (lit ''Viewers'', Str (lit ''45'')),
              (lit ''Date'', Str (lit ''2008'')), (source_index, Num 0)]]\<rparr>]"
  by (simp add: extract_tables_def set_col_def add_column_def source_index_def lit_def)

lemma sink_example_unify:
  "unify_row R [(lit ''Show'', Str (lit ''Fox'')), (lit ''Viewers'', Str (lit ''45'')),
              (lit ''Date'', Str (lit ''2008'')), (source_index, Num 0)] =
   [(lit ''title'', Str (lit ''Fox'')), (lit ''date'', Str (lit ''2008'')),
    (lit ''viewers'', Str (lit ''45'')), (lit ''network'', Missing)]"
  by (simp add: unify_row_def to_dict_def lower_keys_def py_lower_def py_or_def row_get_def
      item_def first_text_def is_text_def source_index_def lit_def Let_def)

lemma year_2008: "year_of R (Str (lit ''2008'')) = Some 2008"
proof -
  have t: "year_text R (Str (lit ''2008'')) = lit ''2008''"
    by (simp add: refs_eval)
  have m: "re_search (match_year R) (lit ''2008'') = Some (lit ''2008'')"
    by (simp add: year_eval)
  have "list_all (isdecimal R) (lit ''2008'')" "lit ''2008'' \<noteq> []"
    by (simp_all add: year_eval)
  then have "py_int R (lit ''2008'') = Inr (year_value R (lit ''2008''))"
    by (rule py_int_year_value)
  moreover have "year_value R (lit ''2008'') = 2008"
    by (simp add: year_value_def decimal_def isdigit09_def lit_def)
  ultimately have "extract_year R (Str (lit ''2008'')) = Inr (Some 2008)"
    by (simp add: extract_year_text t m)
  then show ?thesis by (simp add: year_of_def)
qed

lemma sink_example_clean:
  "clean_row R [(lit ''title'', Str (lit ''Fox'')), (lit ''date'', Str (lit ''2008'')),
          (lit ''viewers'', Str (lit ''45'')), (lit ''network'', Missing)] =
   [(lit ''title'', Str (lit ''Fox'')), (lit ''date'', Str (lit ''2008'')),
    (lit ''viewers'', Str (lit ''45'')), (lit ''network'', Missing),
    (lit ''title_clean'', Str (lit ''fox'')), (lit ''viewers_millions'', Flt (Finite 45)),
    (lit ''year'', Num 2008)]"
proof -
  have i: "item [(lit ''title'', Str (lit ''Fox'')), (lit ''date'', Str (lit ''2008'')),
          (lit ''viewers'', Str (lit ''45'')), (lit ''network'', Missing)] (lit ''date'')
      = Str (lit ''2008'')"
    "item [(lit ''title'', Str (lit ''Fox'')), (lit ''date'', Str (lit ''2008'')),
          (lit ''viewers'', Str (lit ''45'')), (lit ''network'', Missing)] (lit ''network'')
      = Missing"
    by (simp_all add: item_def lit_def)
  have r: "remove_bracket_refs R (Str (lit ''2008'')) = Str (lit ''2008'')"
    "remove_bracket_refs R Missing = Missing"
    by (simp_all add: remove_bracket_refs_def py_str_def strip_refs_def strip_def dagger_def
      isspace_def lit_def)
  have l: "py_lower R (py_str R (Str (lit ''Fox''))) = lit ''fox''"
    by (simp add: py_lower_def py_str_def lit_def)
  show ?thesis
    unfolding clean_row_def Let_def example_cells i example_refs r example_titles l
      ex_small year_2008
    by (simp add: float_cell_def int_cell_def)
qed

lemma sink_example_line:
  "map (item [(lit ''title'', a), (lit ''date'', b), (lit ''viewers'', c), (lit ''network'', d),
    (lit ''title_clean'', e), (lit ''viewers_millions'', f), (lit ''year'', g)]) cleaned_fields
   = [a, b, c, d, e, f, g]"
  by (simp add: cleaned_fields_def item_def lit_def)

lemma sink_example:
  "main_sink R [Some \<lparr>columns = [lit ''Show'', lit ''Viewers'', lit ''Date''],
       rows = [[(lit ''Show'', Str (lit ''Fox'')), (lit ''Viewers'', Str (lit ''45'')),
                (lit ''Date'', Str (lit ''2008''))]]\<rparr>] =
   Inr \<lparr>csv_header = cleaned_fields,
        csv_lines = [[Str (lit ''Fox''), Str (lit ''2008''), Str (lit ''45''), Missing,
                      Str (lit ''fox''), Flt (Finite 45), Num 2008]]\<rparr>"
proof -
  let ?P = "[Some \<lparr>columns = [lit ''Show'', lit ''Viewers'', lit ''Date''],
       rows = [[(lit ''Show'', Str (lit ''Fox'')), (lit ''Viewers'', Str (lit ''45'')),
                (lit ''Date'', Str (lit ''2008''))]]\<rparr>]"
  have c: "concat (map rows (extract_tables ?P)) =
      [[(lit ''Show'', Str (lit ''Fox'')), (lit ''Viewers'', Str (lit ''45'')),
        (lit ''Date'', Str (lit ''2008'')), (source_index, Num 0)]]"
    unfolding sink_example_extract by simp
  have ne: "concat (map rows (extract_tables ?P)) \<noteq> []"
    unfolding c by simp
  have s: "survives (clean_row R [(lit ''title'', Str (lit ''Fox'')),
      (lit ''date'', Str (lit ''2008'')), (lit ''viewers'', Str (lit ''45'')),
      (lit ''network'', Missing)])"
    unfolding sink_example_clean survives_def
    by (simp add: item_def lit_def)
  show ?thesis
    unfolding main_sink_value[OF ne] c
    using s by (simp add: sink_example_unify sink_example_clean sink_example_line)
qed

text \<open>
  C8. Every table that extraction returns has the source-table index column, but
  unification builds its records from the four target fields alone. The sink file
  therefore has exactly the seven columns \<open>title\<close>, \<open>date\<close>, \<open>viewers\<close>, \<open>network\<close>,
  \<open>title_clean\<close>, \<open>viewers_millions\<close>, \<open>year\<close>, without the source-table index and
  without an index column, and one line of seven cells for each cleaned record, in
  order.
\<close>

theorem sink_columns:
  "(\<forall>df\<in>set (extract_tables parsed). source_index \<in> set (columns df)) \<and>
   (main_sink R parsed = Inr csv \<longrightarrow>
     csv_header csv = [lit ''title'', lit ''date'', lit ''viewers'', lit ''network'',
                       lit ''title_clean'', lit ''viewers_millions'', lit ''year''] \<and>
     source_index \<notin> set (csv_header csv) \<and>
     csv_lines csv = map (\<lambda>c. map (item c) (csv_header csv))
        (filter survives (map (clean_row R)
           (map (unify_row R) (concat (map rows (extract_tables parsed)))))) \<and>
     (\<forall>l\<in>set (csv_lines csv). length l = 7))"
proof (intro conjI impI)
  show "\<forall>df\<in>set (extract_tables parsed). source_index \<in> set (columns df)"
    unfolding extract_tables_def by (rule extract_loop_columns)
next
  assume a: "main_sink R parsed = Inr csv"
  note c = main_sink_Inr[OF a]
  have h: "csv_header csv = cleaned_fields" by (subst c) simp
  show "csv_header csv = [lit ''title'', lit ''date'', lit ''viewers'', lit ''network'',
                       lit ''title_clean'', lit ''viewers_millions'', lit ''year'']"
    unfolding h by (simp add: cleaned_fields_def)
  show "source_index \<notin> set (csv_header csv)"
    unfolding h by (rule cleaned_fields_plain)
  show l: "csv_lines csv = map (\<lambda>c. map (item c) (csv_header csv))
        (filter survives (map (clean_row R)
           (map (unify_row R) (concat (map rows (extract_tables parsed))))))"
    unfolding h by (subst c) simp
  show "\<forall>l\<in>set (csv_lines csv). length l = 7"
    unfolding l h by (auto simp: cleaned_fields_plain)
qed


theorem sink_columns_witness:
  "main_sink ascii_runtime [Some \<lparr>columns = [lit ''Show'', lit ''Viewers'', lit ''Date''],
       rows = [[(lit ''Show'', Str (lit ''Fox'')), (lit ''Viewers'', Str (lit ''45'')),
                (lit ''Date'', Str (lit ''2008''))]]\<rparr>] =
   Inr \<lparr>csv_header = cleaned_fields,
        csv_lines = [[Str (lit ''Fox''), Str (lit ''2008''), Str (lit ''45''), Missing,
                      Str (lit ''fox''), Flt (Finite 45), Num 2008]]\<rparr> \<and>
   cleaned_fields = [lit ''title'', lit ''date'', lit ''viewers'', lit ''network'',
                       lit ''title_clean'', lit ''viewers_millions'', lit ''year''] \<and>
   source_index \<notin> set cleaned_fields"
  using sink_columns[of "[Some \<lparr>columns = [lit ''Show'', lit ''Viewers'', lit ''Date''],
       rows = [[(lit ''Show'', Str (lit ''Fox'')), (lit ''Viewers'', Str (lit ''45'')),
                (lit ''Date'', Str (lit ''2008''))]]\<rparr>]" ascii_runtime
      "\<lparr>csv_header = cleaned_fields,
        csv_lines = [[Str (lit ''Fox''), Str (lit ''2008''), Str (lit ''45''), Missing,
                      Str (lit ''fox''), Flt (Finite 45), Num 2008]]\<rparr>"]
    sink_example[of ascii_runtime]
  by simp

text \<open>
  A page with one table of the columns \<open>Show\<close>, \<open>Viewers\<close>, \<open>Date\<close> and one row: the
  extracted table has the source-table index column, the sink file has not.
\<close>

theorem sink_without_source_index:
  "source_index \<in> set (columns (hd (extract_tables
      [Some \<lparr>columns = [lit ''Show'', lit ''Viewers'', lit ''Date''],
       rows = [[(lit ''Show'', Str (lit ''Fox'')), (lit ''Viewers'', Str (lit ''45'')),
                (lit ''Date'', Str (lit ''2008''))]]\<rparr>]))) \<and>
   main_sink ascii_runtime [Some \<lparr>columns = [lit ''Show'', lit ''Viewers'', lit ''Date''],
       rows = [[(lit ''Show'', Str (lit ''Fox'')), (lit ''Viewers'', Str (lit ''45'')),
                (lit ''Date'', Str (lit ''2008''))]]\<rparr>] =
   Inr \<lparr>csv_header = [lit ''title'', lit ''date'', lit ''viewers'', lit ''network'',
                       lit ''title_clean'', lit ''viewers_millions'', lit ''year''],
        csv_lines = [[Str (lit ''Fox''), Str (lit ''2008''), Str (lit ''45''), Missing,
                      Str (lit ''fox''), Flt (Finite 45), Num 2008]]\<rparr> \<and>
   source_index \<notin> set [lit ''title'', lit ''date'', lit ''viewers'', lit ''network'',
                       lit ''title_clean'', lit ''viewers_millions'', lit ''year'']"
  using sink_example[of ascii_runtime] cleaned_fields_plain(1)
  unfolding sink_example_extract cleaned_fields_def by simp

end
